theory Spec2Isabelle
  imports Main "HOL-Library.AList" "HOL-Library.Char_ord" "HOL-Library.List_Lexorder"
begin

section \<open>Python values and errors\<close>

text \<open>
  Both programs work on what \<^verbatim>\<open>json.load\<close> returns: dicts, lists, strings, numbers,
  booleans and \<^verbatim>\<open>None\<close>. A dict is an association list read with \<open>map_of\<close> and written
  with \<open>AList.update\<close> (an existing key keeps its place, a new key goes to the end, as in
  Python). A float is a finite binary fraction \<open>m * 2 ^ e\<close>, an infinity or a NaN (which
  \<^verbatim>\<open>json.load\<close> accepts); none of the modelled functions computes with one. Python's
  \<^verbatim>\<open>None\<close> is \<open>JNull\<close>.
\<close>

datatype pyfloat = Finite int int | Infinity | NegInfinity | NaN

datatype json =
    JNull
  | JBool bool
  | JInt int
  | JFloat pyfloat
  | JStr string
  | JArr "json list"
  | JObj "(string \<times> json) list"

text \<open>
  Exceptions are values. \<open>InvalidUsage\<close> is the class of \<^verbatim>\<open>restapi.py\<close> (message and
  HTTP status code); the others are the built-in exceptions that the modelled
  statements raise. \<open>FileNotFoundError\<close> is Python's \<^verbatim>\<open>OSError\<close> for a missing file and
  \<open>JSONDecodeError\<close> what \<^verbatim>\<open>json.load\<close> raises on text that is not JSON.
\<close>

datatype error =
    InvalidUsage string nat
  | FileNotFoundError
  | JSONDecodeError
  | KeyError string
  | TypeError
  | AttributeError
  | ValueError

text \<open>\<^verbatim>\<open>obj[key]\<close> with a string key: only a dict can be subscripted by a string.\<close>

fun getitem :: "json \<Rightarrow> string \<Rightarrow> error + json" where
  "getitem (JObj kvs) k = (case map_of kvs k of None \<Rightarrow> Inl (KeyError k) | Some v \<Rightarrow> Inr v)"
| "getitem _ k = Inl TypeError"

text \<open>
  \<^verbatim>\<open>for x in obj\<close>: a list gives its elements, a dict its keys, a string its characters;
  nothing else is iterable.
\<close>

fun py_iter :: "json \<Rightarrow> error + json list" where
  "py_iter (JArr xs) = Inr xs"
| "py_iter (JObj kvs) = Inr (map (\<lambda>kv. JStr (fst kv)) kvs)"
| "py_iter (JStr s) = Inr (map (\<lambda>c. JStr [c]) s)"
| "py_iter _ = Inl TypeError"

section \<open>Naive date-times\<close>

text \<open>
  None of the three formats has a zone directive, so every parsed value is a naive
  \<^verbatim>\<open>datetime\<close> with microsecond 0. Comparison is the lexicographic comparison of the
  fields, subtraction gives a \<^verbatim>\<open>timedelta\<close>, here the whole number of seconds, computed as
  the standard library does from the proleptic Gregorian ordinal of the date.
\<close>

record datetime =
  year :: nat
  month :: nat
  day :: nat
  hour :: nat
  minute :: nat
  second :: nat

definition is_leap :: "nat \<Rightarrow> bool" where
  "is_leap y = (y mod 4 = 0 \<and> (y mod 100 \<noteq> 0 \<or> y mod 400 = 0))"

definition DAYS_IN_MONTH :: "nat list" where
  "DAYS_IN_MONTH = [0, 31, 28, 31, 30, 31, 30, 31, 31, 30, 31, 30, 31]"

definition days_in_month :: "nat \<Rightarrow> nat \<Rightarrow> nat" where
  "days_in_month y m = (if m = 2 \<and> is_leap y then 29 else DAYS_IN_MONTH ! m)"

definition days_before_year :: "nat \<Rightarrow> int" where
  "days_before_year y = (let z = int y - 1 in z * 365 + z div 4 - z div 100 + z div 400)"

definition days_before_month :: "nat \<Rightarrow> nat \<Rightarrow> int" where
  "days_before_month y m =
     int (sum_list (take m DAYS_IN_MONTH)) + (if m > 2 \<and> is_leap y then 1 else 0)"

definition toordinal :: "datetime \<Rightarrow> int" where
  "toordinal d = days_before_year (year d) + days_before_month (year d) (month d) + int (day d)"

text \<open>\<^verbatim>\<open>abs(a - b)\<close> of two naive date-times, in seconds.\<close>

definition total_seconds :: "datetime \<Rightarrow> int" where
  "total_seconds d =
     toordinal d * 86400 + int (hour d) * 3600 + int (minute d) * 60 + int (second d)"

definition abs_diff :: "datetime \<Rightarrow> datetime \<Rightarrow> int" where
  "abs_diff a b = \<bar>total_seconds a - total_seconds b\<bar>"

definition dt_fields :: "datetime \<Rightarrow> nat list" where
  "dt_fields d = [year d, month d, day d, hour d, minute d, second d]"

definition dt_le :: "datetime \<Rightarrow> datetime \<Rightarrow> bool" where
  "dt_le a b = (dt_fields a \<le> dt_fields b)"

definition dt_less :: "datetime \<Rightarrow> datetime \<Rightarrow> bool" where
  "dt_less a b = (dt_fields a < dt_fields b)"

text \<open>
  The constructor \<^verbatim>\<open>datetime(y, m, d, H, M, S)\<close> raises \<^verbatim>\<open>ValueError\<close> outside these
  ranges (\<^verbatim>\<open>MINYEAR = 1\<close>, \<^verbatim>\<open>MAXYEAR = 9999\<close>).
\<close>

definition make_datetime :: "nat \<Rightarrow> nat \<Rightarrow> nat \<Rightarrow> nat \<Rightarrow> nat \<Rightarrow> nat \<Rightarrow> error + datetime" where
  "make_datetime y m d H M S =
     (if 1 \<le> y \<and> y \<le> 9999 \<and> 1 \<le> m \<and> m \<le> 12 \<and> 1 \<le> d \<and> d \<le> days_in_month y m
         \<and> H \<le> 23 \<and> M \<le> 59 \<and> S \<le> 59
      then Inr \<lparr>year = y, month = m, day = d, hour = H, minute = M, second = S\<rparr>
      else Inl ValueError)"

section \<open>The timestamp codec\<close>

text \<open>
  \<^verbatim>\<open>datetime.strptime(ts, fmt)\<close> turns the format into a regular expression, matches it
  (ignoring case) at the start of the string, refuses a match that leaves text over,
  and builds the date-time from the groups. The model keeps the library's expressions
  for the six directives the formats use: each is a list of alternatives, tried in
  order, and an alternative is a list of character classes. The expressions are those
  of CPython's \<^verbatim>\<open>_strptime\<close>, for instance \<^verbatim>\<open>1[0-2]|0[1-9]|[1-9]\<close> for \<^verbatim>\<open>%m\<close>. Characters
  are the 256 characters of \<open>char\<close>, among which \<^verbatim>\<open>\d\<close> matches the ten ASCII digits
  only.
\<close>

datatype item = Lit char | Dir char

definition ts_formats :: "string list" where
  "ts_formats = [''%Y-%m-%dT%H:%M:%S+00:00'', ''%Y-%m-%dT%H:%M:%SZ'', ''%Y-%m-%dT%H:%M:%S'']"

definition digit :: string where
  "digit = ''0123456789''"

definition nonzero :: string where
  "nonzero = ''123456789''"

fun directive_regex :: "char \<Rightarrow> string list list option" where
  "directive_regex c =
     (if c = CHR ''Y'' then Some [[digit, digit, digit, digit]]
      else if c = CHR ''m'' then Some [[''1'', ''012''], [''0'', nonzero], [nonzero]]
      else if c = CHR ''d'' then
        Some [[''3'', ''01''], [''12'', digit], [''0'', nonzero], [nonzero], ['' '', nonzero]]
      else if c = CHR ''H'' then Some [[''2'', ''0123''], [''01'', digit], [digit]]
      else if c = CHR ''M'' then Some [[''012345'', digit], [digit]]
      else if c = CHR ''S'' then Some [[''6'', ''01''], [''012345'', digit], [digit]]
      else None)"

text \<open>The format as a sequence of literals and directives; a stray \<^verbatim>\<open>%\<close> is refused.\<close>

fun compile_format :: "string \<Rightarrow> item list option" where
  "compile_format [] = Some []"
| "compile_format [c] = (if c = CHR ''%'' then None else Some [Lit c])"
| "compile_format (c # d # cs) =
     (if c = CHR ''%'' then map_option (\<lambda>r. Dir d # r) (compile_format cs)
      else map_option (\<lambda>r. Lit c # r) (compile_format (d # cs)))"

text \<open>One alternative against the start of the text: the matched text and the rest.\<close>

fun match_classes :: "string list \<Rightarrow> string \<Rightarrow> (string \<times> string) option" where
  "match_classes [] s = Some ([], s)"
| "match_classes (cl # cls) [] = None"
| "match_classes (cl # cls) (x # xs) =
     (if x \<in> set cl then map_option (\<lambda>(m, r). (x # m, r)) (match_classes cls xs) else None)"

text \<open>A literal matches itself and, for a letter, its other case.\<close>

definition uppercase :: string where
  "uppercase = ''ABCDEFGHIJKLMNOPQRSTUVWXYZ''"

definition lowercase :: string where
  "lowercase = ''abcdefghijklmnopqrstuvwxyz''"

definition lit_match :: "char \<Rightarrow> char \<Rightarrow> bool" where
  "lit_match c x =
     (x = c \<or> (c, x) \<in> set (zip uppercase lowercase) \<or> (x, c) \<in> set (zip uppercase lowercase))"

text \<open>
  The backtracking match of the whole sequence: every way to match, in the order the
  regular expression engine tries them, each with its groups and the text left over.
  \<^verbatim>\<open>re.match\<close> takes the first.
\<close>

fun match_items :: "item list \<Rightarrow> string \<Rightarrow> ((char \<times> string) list \<times> string) list" where
  "match_items [] s = [([], s)]"
| "match_items (Lit c # its) s =
     (case s of [] \<Rightarrow> [] | x # xs \<Rightarrow> if lit_match c x then match_items its xs else [])"
| "match_items (Dir c # its) s =
     (case directive_regex c of
        None \<Rightarrow> []
      | Some alts \<Rightarrow>
          concat (map (\<lambda>(m, r). map (\<lambda>(g, r'). ((c, m) # g, r')) (match_items its r))
                      (List.map_filter (\<lambda>alt. match_classes alt s) alts)))"

text \<open>
  \<^verbatim>\<open>int\<close> of a group's text: its decimal digits (\<^verbatim>\<open>int\<close> ignores the blank that the
  last alternative of the day directive lets through).
\<close>

definition digit_val :: "char \<Rightarrow> nat" where
  "digit_val c = of_char c - 48"

definition int_of_digits :: "string \<Rightarrow> nat" where
  "int_of_digits s = foldl (\<lambda>n c. 10 * n + digit_val c) 0 (filter (\<lambda>c. c \<in> set digit) s)"

text \<open>A group's value, or the default the library uses for a directive that is absent.\<close>

definition group :: "(char \<times> string) list \<Rightarrow> char \<Rightarrow> nat \<Rightarrow> nat" where
  "group g c dflt = (case map_of g c of None \<Rightarrow> dflt | Some m \<Rightarrow> int_of_digits m)"

definition all_directives_known :: "item list \<Rightarrow> bool" where
  "all_directives_known its = list_all (\<lambda>i. case i of Lit c \<Rightarrow> True | Dir c \<Rightarrow> directive_regex c \<noteq> None) its"

definition datetime_of_groups :: "(char \<times> string) list \<Rightarrow> error + datetime" where
  "datetime_of_groups g =
     make_datetime (group g CHR ''Y'' 1900) (group g CHR ''m'' 1) (group g CHR ''d'' 1)
       (group g CHR ''H'' 0) (group g CHR ''M'' 0) (group g CHR ''S'' 0)"

definition strptime :: "json \<Rightarrow> string \<Rightarrow> error + datetime" where
  "strptime ts fmt =
     (case ts of
        JStr s \<Rightarrow>
          (case compile_format fmt of
             None \<Rightarrow> Inl ValueError
           | Some its \<Rightarrow>
               if \<not> all_directives_known its then Inl ValueError
               else (case match_items its s of
                  [] \<Rightarrow> Inl ValueError
                | (g, r) # _ \<Rightarrow> if r \<noteq> [] then Inl ValueError else datetime_of_groups g))
      | _ \<Rightarrow> Inl TypeError)"

text \<open>
  \<^verbatim>\<open>ts_parse\<close>: the \<^verbatim>\<open>for ... else\<close> over the formats. The bare \<^verbatim>\<open>except\<close> turns every
  exception of \<^verbatim>\<open>strptime\<close> into \<^verbatim>\<open>continue\<close>, the first success breaks out of the loop,
  and the \<^verbatim>\<open>else\<close> branch returns \<^verbatim>\<open>None\<close> when the formats are exhausted.
\<close>

fun ts_parse_loop :: "json \<Rightarrow> string list \<Rightarrow> datetime option" where
  "ts_parse_loop ts [] = None"
| "ts_parse_loop ts (fmt # fmts) =
     (case strptime ts fmt of Inr dt \<Rightarrow> Some dt | Inl e \<Rightarrow> ts_parse_loop ts fmts)"

definition ts_parse :: "json \<Rightarrow> datetime option" where
  "ts_parse ts = ts_parse_loop ts ts_formats"

section \<open>Files\<close>

text \<open>
  A file either holds the text of a JSON value or text that \<^verbatim>\<open>json.load\<close> refuses; the
  file system maps a path to its file. \<open>json_load\<close> is
  \<^verbatim>\<open>with open(fname, 'r') as f: json.load(f)\<close>.
\<close>

datatype content = JsonText json | NotJson

type_synonym filesystem = "string \<Rightarrow> content option"

definition json_load :: "filesystem \<Rightarrow> string \<Rightarrow> error + json" where
  "json_load fs fname =
     (case fs fname of
        None \<Rightarrow> Inl FileNotFoundError
      | Some NotJson \<Rightarrow> Inl JSONDecodeError
      | Some (JsonText v) \<Rightarrow> Inr v)"

section \<open>The REST API (restapi.py)\<close>

definition leaderboard_file :: string where
  "leaderboard_file = ''data/leaderboard.json''"

definition weather_file :: string where
  "weather_file = ''data/station_observations.json''"

text \<open>
  \<^verbatim>\<open>read_json_dict\<close>: the \<^verbatim>\<open>try\<close>/\<^verbatim>\<open>except\<close> that would return \<^verbatim>\<open>{}\<close> is commented out in the
  source, so the function is the load and nothing else.
\<close>

definition read_json_dict :: "filesystem \<Rightarrow> string \<Rightarrow> error + json" where
  "read_json_dict fs fname = json_load fs fname"

text \<open>
  \<^verbatim>\<open>abs(dt - dte)\<close>: subtracting with \<^verbatim>\<open>None\<close> on either side is a \<^verbatim>\<open>TypeError\<close>.
\<close>

definition abs_sub :: "datetime option \<Rightarrow> datetime option \<Rightarrow> error + int" where
  "abs_sub dt dte =
     (case dt of
        None \<Rightarrow> Inl TypeError
      | Some a \<Rightarrow> (case dte of None \<Rightarrow> Inl TypeError | Some b \<Rightarrow> Inr (abs_diff a b)))"

text \<open>
  The loop of \<^verbatim>\<open>weather_find\<close> with its two variables. The distance is evaluated in the
  test when \<^verbatim>\<open>nearest\<close> is set and in the assignment when it is not, so a timestamp
  that does not parse raises in both cases.
\<close>

fun weather_loop :: "datetime option \<Rightarrow> json list \<Rightarrow> int option \<Rightarrow> json \<Rightarrow> error + json" where
  "weather_loop dt [] nearest weather = Inr weather"
| "weather_loop dt (event # events) nearest weather =
     (case getitem event ''properties'' of
        Inl e \<Rightarrow> Inl e
      | Inr props \<Rightarrow>
          (case getitem props ''timestamp'' of
             Inl e \<Rightarrow> Inl e
           | Inr ts \<Rightarrow>
               (case abs_sub dt (ts_parse ts) of
                  Inl e \<Rightarrow> Inl e
                | Inr dist \<Rightarrow>
                    if (case nearest of None \<Rightarrow> True | Some n \<Rightarrow> dist < n)
                    then weather_loop dt events (Some dist) props
                    else weather_loop dt events nearest weather)))"

definition weather_find :: "datetime option \<Rightarrow> json \<Rightarrow> error + json" where
  "weather_find dt events =
     (case getitem events ''features'' of
        Inl e \<Rightarrow> Inl e
      | Inr features \<Rightarrow>
          (case py_iter features of
             Inl e \<Rightarrow> Inl e
           | Inr evs \<Rightarrow> weather_loop dt evs None JNull))"

text \<open>
  The filter loop of \<^verbatim>\<open>leaders_timerange\<close> over the sorted keys of the loaded dict.
  \<^verbatim>\<open>dt >= dt1\<close> with \<^verbatim>\<open>dt\<close> \<^verbatim>\<open>None\<close> is a \<^verbatim>\<open>TypeError\<close>.
\<close>

fun timerange_loop :: "datetime \<Rightarrow> datetime \<Rightarrow> json \<Rightarrow> string list \<Rightarrow> json list \<Rightarrow> error + json list" where
  "timerange_loop dt1 dt2 events [] retlist = Inr retlist"
| "timerange_loop dt1 dt2 events (event # rest) retlist =
     (case getitem events event of
        Inl e \<Rightarrow> Inl e
      | Inr r \<Rightarrow>
          (case getitem r ''start_date'' of
             Inl e \<Rightarrow> Inl e
           | Inr sd \<Rightarrow>
               (case ts_parse sd of
                  None \<Rightarrow> Inl TypeError
                | Some dt \<Rightarrow>
                    if dt_le dt1 dt \<and> dt_le dt dt2
                    then timerange_loop dt1 dt2 events rest (retlist @ [r])
                    else timerange_loop dt1 dt2 events rest retlist)))"

text \<open>
  \<^verbatim>\<open>sorted(events)\<close> of a dict is the sorted list of its keys, strings compared code point
  by code point. Data that is not a dict gives an empty result when it is an empty
  list or string and fails otherwise, in \<^verbatim>\<open>sorted\<close> or at the first subscript (a
  \<^verbatim>\<open>TypeError\<close>; for some lists of booleans an \<^verbatim>\<open>IndexError\<close>, which the model does not
  tell apart).
\<close>

definition filter_events :: "datetime \<Rightarrow> datetime \<Rightarrow> json \<Rightarrow> error + json list" where
  "filter_events dt1 dt2 events =
     (case events of
        JObj kvs \<Rightarrow> timerange_loop dt1 dt2 events (sort (map fst kvs)) []
      | JArr [] \<Rightarrow> Inr []
      | JStr [] \<Rightarrow> Inr []
      | _ \<Rightarrow> Inl TypeError)"

definition timerange_error :: error where
  "timerange_error = InvalidUsage ''Error parsing timestamp parameters'' 400"

definition leaders_timerange :: "filesystem \<Rightarrow> string \<Rightarrow> string \<Rightarrow> error + json list" where
  "leaders_timerange fs ts1 ts2 =
     (case ts_parse (JStr ts1) of
        None \<Rightarrow> Inl timerange_error
      | Some dt1 \<Rightarrow>
          (case ts_parse (JStr ts2) of
             None \<Rightarrow> Inl timerange_error
           | Some dt2 \<Rightarrow>
               if dt_less dt2 dt1 then Inl timerange_error
               else (case read_json_dict fs leaderboard_file of
                       Inl e \<Rightarrow> Inl e
                     | Inr events \<Rightarrow> filter_events dt1 dt2 events)))"

definition weather_at_time :: "filesystem \<Rightarrow> string \<Rightarrow> error + json" where
  "weather_at_time fs ts =
     (case ts_parse (JStr ts) of
        None \<Rightarrow> Inl (InvalidUsage ''Error parsing timestamp parameter'' 400)
      | Some dt \<Rightarrow>
          (case read_json_dict fs weather_file of
             Inl e \<Rightarrow> Inl e
           | Inr events \<Rightarrow> weather_find (Some dt) events))"

section \<open>The merge tool (tools/update_leaderboard.py)\<close>

definition tool_leaderboard_file :: string where
  "tool_leaderboard_file = ''leaderboard.json''"

definition unique_key_fields :: "string list" where
  "unique_key_fields = [''start_date'', ''athlete_name'', ''rank'']"

text \<open>
  \<^verbatim>\<open>str(v)\<close>: a string is itself, \<^verbatim>\<open>None\<close> and the booleans print their names, an integer
  its decimal digits. The text of a float, a list or a dict is Python's \<^verbatim>\<open>repr\<close>, which
  is taken as a parameter.
\<close>

fun str_nat :: "nat \<Rightarrow> string" where
  "str_nat n =
     (if n < 10 then [char_of (48 + n)] else str_nat (n div 10) @ [char_of (48 + n mod 10)])"

declare str_nat.simps [simp del]

definition str_int :: "int \<Rightarrow> string" where
  "str_int i = (if i < 0 then CHR ''-'' # str_nat (nat (- i)) else str_nat (nat i))"

definition py_str :: "(json \<Rightarrow> string) \<Rightarrow> json \<Rightarrow> string" where
  "py_str repr v =
     (case v of
        JStr s \<Rightarrow> s
      | JNull \<Rightarrow> ''None''
      | JBool b \<Rightarrow> (if b then ''True'' else ''False'')
      | JInt i \<Rightarrow> str_int i
      | _ \<Rightarrow> repr v)"

text \<open>\<^verbatim>\<open>d.get(key, default)\<close>: a method of dicts only.\<close>

fun dict_get :: "json \<Rightarrow> string \<Rightarrow> json \<Rightarrow> error + json" where
  "dict_get (JObj kvs) k dflt = Inr (case map_of kvs k of None \<Rightarrow> dflt | Some v \<Rightarrow> v)"
| "dict_get _ k dflt = Inl AttributeError"

text \<open>\<^verbatim>\<open>sep.join(vals)\<close>.\<close>

fun join :: "string \<Rightarrow> string list \<Rightarrow> string" where
  "join sep [] = []"
| "join sep [x] = x"
| "join sep (x # y # ys) = x @ sep @ join sep (y # ys)"

fun composite_key_loop :: "(json \<Rightarrow> string) \<Rightarrow> json \<Rightarrow> string list \<Rightarrow> string list \<Rightarrow> error + string list" where
  "composite_key_loop repr d [] vals = Inr vals"
| "composite_key_loop repr d (key # keys) vals =
     (case dict_get d key (JStr []) of
        Inl e \<Rightarrow> Inl e
      | Inr v \<Rightarrow> composite_key_loop repr d keys (vals @ [py_str repr v]))"

definition make_composite_key :: "(json \<Rightarrow> string) \<Rightarrow> json \<Rightarrow> string list \<Rightarrow> error + string" where
  "make_composite_key repr d keys =
     (case composite_key_loop repr d keys [] of
        Inl e \<Rightarrow> Inl e
      | Inr vals \<Rightarrow> Inr (join ''+'' vals))"

text \<open>\<^verbatim>\<open>data[key] = entry\<close>: only a dict takes a string key.\<close>

fun setitem :: "json \<Rightarrow> string \<Rightarrow> json \<Rightarrow> error + json" where
  "setitem (JObj kvs) k v = Inr (JObj (AList.update k v kvs))"
| "setitem _ k v = Inl TypeError"

text \<open>The inner loop over the entries of one batch.\<close>

fun merge_entries :: "(json \<Rightarrow> string) \<Rightarrow> json \<Rightarrow> json list \<Rightarrow> error + json" where
  "merge_entries repr data [] = Inr data"
| "merge_entries repr data (entry # entries) =
     (case make_composite_key repr entry unique_key_fields of
        Inl e \<Rightarrow> Inl e
      | Inr k \<Rightarrow>
          (case setitem data k entry of
             Inl e \<Rightarrow> Inl e
           | Inr data' \<Rightarrow> merge_entries repr data' entries))"

text \<open>The outer loop over the file names of the command line.\<close>

fun merge_files :: "(json \<Rightarrow> string) \<Rightarrow> filesystem \<Rightarrow> json \<Rightarrow> string list \<Rightarrow> error + json" where
  "merge_files repr fs data [] = Inr data"
| "merge_files repr fs data (filename # rest) =
     (case json_load fs filename of
        Inl e \<Rightarrow> Inl e
      | Inr d \<Rightarrow>
          (case getitem d ''entries'' of
             Inl e \<Rightarrow> Inl e
           | Inr es \<Rightarrow>
               (case py_iter es of
                  Inl e \<Rightarrow> Inl e
                | Inr entries \<Rightarrow>
                    (case merge_entries repr data entries of
                       Inl e \<Rightarrow> Inl e
                     | Inr data' \<Rightarrow> merge_files repr fs data' rest))))"

text \<open>
  \<^verbatim>\<open>json.dump(data, out, sort_keys=True)\<close> writes every dict with its keys in sorted
  order, so that is the value the written file holds.
\<close>

fun sort_keys :: "json \<Rightarrow> json" where
  "sort_keys (JArr xs) = JArr (map sort_keys xs)"
| "sort_keys (JObj kvs) = JObj (sort_key fst (map (\<lambda>(k, v). (k, sort_keys v)) kvs))"
| "sort_keys v = v"

text \<open>
  The first block of the script: the existing leaderboard is read inside
  \<^verbatim>\<open>try\<close>/\<^verbatim>\<open>except\<close>, and any failure starts from \<^verbatim>\<open>{}\<close>.
\<close>

definition load_existing :: "filesystem \<Rightarrow> json" where
  "load_existing fs =
     (case json_load fs tool_leaderboard_file of Inl e \<Rightarrow> JObj [] | Inr v \<Rightarrow> v)"

text \<open>
  The whole run, with the name that \<^verbatim>\<open>NamedTemporaryFile\<close> picks as a parameter. The
  result is the outcome and the file systems that exist during the run, in order: the
  initial one, and for a run that reaches the end the temporary file while it is being
  written, the temporary file complete, and the state after \<^verbatim>\<open>os.replace\<close>. An
  exception in the loop ends the script before the temporary file is created.
\<close>

definition update_leaderboard ::
    "(json \<Rightarrow> string) \<Rightarrow> string list \<Rightarrow> string \<Rightarrow> filesystem \<Rightarrow> (error + unit) \<times> filesystem list" where
  "update_leaderboard repr argv tmpname fs =
     (case merge_files repr fs (load_existing fs) argv of
        Inl e \<Rightarrow> (Inl e, [fs])
      | Inr data \<Rightarrow>
          (Inr (),
           [fs,
            fs(tmpname \<mapsto> NotJson),
            fs(tmpname \<mapsto> JsonText (sort_keys data)),
            (fs(tmpname := None))(tool_leaderboard_file \<mapsto> JsonText (sort_keys data))]))"

section \<open>Notions used to state the properties\<close>

text \<open>
  The composite key of an entry when \<open>make_composite_key\<close> returns one (the empty string
  stands in where it raises; the properties below only use it on entries for which it
  returns).
\<close>

definition key_of :: "(json \<Rightarrow> string) \<Rightarrow> json \<Rightarrow> string" where
  "key_of repr entry =
     (case make_composite_key repr entry unique_key_fields of Inl e \<Rightarrow> [] | Inr k \<Rightarrow> k)"

text \<open>The string form of a field of an entry, the empty string when the field is missing.\<close>

definition field_str :: "(json \<Rightarrow> string) \<Rightarrow> (string \<times> json) list \<Rightarrow> string \<Rightarrow> string" where
  "field_str repr kvs f = (case map_of kvs f of None \<Rightarrow> [] | Some v \<Rightarrow> py_str repr v)"

text \<open>The entries of one batch file, and of all the files of the command line in order.\<close>

definition batch_entries :: "filesystem \<Rightarrow> string \<Rightarrow> error + json list" where
  "batch_entries fs filename =
     (case json_load fs filename of
        Inl e \<Rightarrow> Inl e
      | Inr d \<Rightarrow> (case getitem d ''entries'' of Inl e \<Rightarrow> Inl e | Inr es \<Rightarrow> py_iter es))"

definition all_entries :: "filesystem \<Rightarrow> string list \<Rightarrow> json list" where
  "all_entries fs argv =
     concat (map (\<lambda>f. case batch_entries fs f of Inl e \<Rightarrow> [] | Inr es \<Rightarrow> es) argv)"

text \<open>The last entry of a sequence that has a given composite key.\<close>

definition last_with_key :: "(json \<Rightarrow> string) \<Rightarrow> string \<Rightarrow> json list \<Rightarrow> json option" where
  "last_with_key repr k entries =
     find (\<lambda>e. make_composite_key repr e unique_key_fields = Inr k) (rev entries)"

text \<open>
  The timestamp of an observation of the weather file, \<^verbatim>\<open>event['properties']['timestamp']\<close>,
  and its parsed value.
\<close>

definition obs_timestamp :: "json \<Rightarrow> error + json" where
  "obs_timestamp event =
     (case getitem event ''properties'' of
        Inl e \<Rightarrow> Inl e
      | Inr props \<Rightarrow> getitem props ''timestamp'')"

definition obs_time :: "json \<Rightarrow> datetime option" where
  "obs_time event = (case obs_timestamp event of Inl e \<Rightarrow> None | Inr ts \<Rightarrow> ts_parse ts)"

text \<open>
  The parsed \<^verbatim>\<open>start_date\<close> of a leaderboard record, and whether it lies in a closed range.
\<close>

definition start_time :: "json \<Rightarrow> datetime option" where
  "start_time r = (case getitem r ''start_date'' of Inl e \<Rightarrow> None | Inr sd \<Rightarrow> ts_parse sd)"

definition in_range :: "datetime \<Rightarrow> datetime \<Rightarrow> json \<Rightarrow> bool" where
  "in_range lo hi r = (case start_time r of None \<Rightarrow> False | Some dt \<Rightarrow> dt_le lo dt \<and> dt_le dt hi)"

text \<open>
  Notions for reasoning about the match. A character is inert for a sequence of items
  when no literal of the sequence matches it and no character class of its directives
  contains it: the match can neither consume nor skip such a character.
  \<open>datetime_items\<close> is the common part of the three formats.
\<close>

definition inert_class :: "char \<Rightarrow> string list \<Rightarrow> bool" where
  "inert_class c alt = list_all (\<lambda>cl. c \<notin> set cl) alt"

definition inert_item :: "char \<Rightarrow> item \<Rightarrow> bool" where
  "inert_item c i =
     (case i of
        Lit l \<Rightarrow> \<not> lit_match l c
      | Dir d \<Rightarrow> (case directive_regex d of None \<Rightarrow> True | Some alts \<Rightarrow> list_all (inert_class c) alts))"

definition inert :: "char \<Rightarrow> item list \<Rightarrow> bool" where
  "inert c its = list_all (inert_item c) its"

definition datetime_items :: "item list" where
  "datetime_items =
     [Dir CHR ''Y'', Lit CHR ''-'', Dir CHR ''m'', Lit CHR ''-'', Dir CHR ''d'', Lit CHR ''T'',
      Dir CHR ''H'', Lit CHR '':'', Dir CHR ''M'', Lit CHR '':'', Dir CHR ''S'']"

text \<open>
  The three layouts in the words of the specification: in a layout a letter among
  \<^verbatim>\<open>Y\<close>, \<^verbatim>\<open>M\<close>, \<^verbatim>\<open>D\<close>, \<^verbatim>\<open>H\<close>, \<^verbatim>\<open>S\<close> stands for one decimal digit and every other character
  for itself.
\<close>

definition spec_layouts :: "string list" where
  "spec_layouts = [''YYYY-MM-DDTHH:MM:SS+00:00'', ''YYYY-MM-DDTHH:MM:SSZ'', ''YYYY-MM-DDTHH:MM:SS'']"

definition fits_layout :: "string \<Rightarrow> string \<Rightarrow> bool" where
  "fits_layout layout s =
     list_all2 (\<lambda>p c. if p \<in> set ''YMDHS'' then c \<in> set digit else c = p) layout s"

definition matches_spec_layout :: "string \<Rightarrow> bool" where
  "matches_spec_layout s = list_ex (\<lambda>layout. fits_layout layout s) spec_layouts"

text \<open>
  A field of a directive is a text that one alternative of the directive's expression
  matches entirely. \<open>fields_datetime\<close> is the date-time that six fields name, as the
  constructor builds it from their numbers. \<open>accepted s suffix d\<close>: the string is six
  fields that name \<open>d\<close>, with the separators of the formats (the letter in either case),
  followed by the suffix.
\<close>

definition field_of :: "char \<Rightarrow> string \<Rightarrow> bool" where
  "field_of c f =
     (case directive_regex c of
        None \<Rightarrow> False
      | Some alts \<Rightarrow> list_ex (\<lambda>alt. match_classes alt f = Some (f, [])) alts)"

definition fields_datetime :: "string \<Rightarrow> string \<Rightarrow> string \<Rightarrow> string \<Rightarrow> string \<Rightarrow> string \<Rightarrow> error + datetime" where
  "fields_datetime y mo da h mi se =
     make_datetime (int_of_digits y) (int_of_digits mo) (int_of_digits da)
       (int_of_digits h) (int_of_digits mi) (int_of_digits se)"

abbreviation accepted :: "string \<Rightarrow> string \<Rightarrow> datetime \<Rightarrow> bool" where
  "accepted s suffix d \<equiv>
     (\<exists>y mo da sep h mi se.
        s = y @ CHR ''-'' # mo @ CHR ''-'' # da @ sep # h @ CHR '':'' # mi @ CHR '':'' # se @ suffix
        \<and> field_of CHR ''Y'' y \<and> field_of CHR ''m'' mo \<and> field_of CHR ''d'' da
        \<and> field_of CHR ''H'' h \<and> field_of CHR ''M'' mi \<and> field_of CHR ''S'' se
        \<and> lit_match CHR ''T'' sep
        \<and> fields_datetime y mo da h mi se = Inr d)"

section \<open>Example data\<close>

text \<open>
  Leaderboard entries, batch files, observations and date-times on which the
  properties are evaluated.
\<close>

definition alice1 :: json where
  "alice1 = JObj [(''start_date'', JStr ''2024-01-01T00:00:00Z''), (''athlete_name'', JStr ''alice''),
                  (''rank'', JInt 1)]"

definition alice1_late :: json where
  "alice1_late = JObj [(''start_date'', JStr ''2024-01-01T00:00:00Z''), (''athlete_name'', JStr ''alice''),
                  (''rank'', JInt 1), (''elapsed'', JInt 300)]"

definition bob :: json where
  "bob = JObj [(''start_date'', JStr ''2024-01-02T00:00:00''), (''athlete_name'', JStr ''bob'')]"

definition two_batches :: filesystem where
  "two_batches = [''a.json'' \<mapsto> JsonText (JObj [(''entries'', JArr [alice1, bob])]),
                  ''b.json'' \<mapsto> JsonText (JObj [(''entries'', JArr [alice1_late])])]"

definition noon :: datetime where
  "noon = \<lparr>year = 2024, month = 1, day = 1, hour = 12, minute = 0, second = 0\<rparr>"

definition obs_at :: "string \<Rightarrow> int \<Rightarrow> json" where
  "obs_at ts temp =
     JObj [(''properties'', JObj [(''timestamp'', JStr ts), (''temperature'', JObj [(''value'', JInt temp)])])]"

definition bad_run :: filesystem where
  "bad_run = two_batches(''bad.json'' \<mapsto> NotJson)"

definition three_obs :: "json list" where
  "three_obs = [obs_at ''2024-01-01T11:00:00Z'' 5, obs_at ''2024-01-01T13:00:00+00:00'' 7,
                obs_at ''2024-01-01T14:00:00'' 9]"

definition unparseable_obs :: json where
  "unparseable_obs = JObj [(''properties'', JObj [(''timestamp'', JStr ''yesterday'')])]"

definition board :: filesystem where
  "board = [''data/leaderboard.json'' \<mapsto>
     JsonText (JObj [(''2024-01-02T00:00:00+bob+'', bob), (''2024-01-01T00:00:00Z+alice+1'', alice1)])]"

definition dec31 :: datetime where
  "dec31 = \<lparr>year = 2023, month = 12, day = 31, hour = 0, minute = 0, second = 0\<rparr>"

definition jan1 :: datetime where
  "jan1 = \<lparr>year = 2024, month = 1, day = 1, hour = 0, minute = 0, second = 0\<rparr>"

section \<open>Evaluations used in the examples\<close>

lemma parse_jan1: "ts_parse (JStr ''2024-01-01T00:00:00Z'') =
    Some \<lparr>year = 2024, month = 1, day = 1, hour = 0, minute = 0, second = 0\<rparr>"
  by code_simp

lemma parse_jan2: "ts_parse (JStr ''2024-01-02T00:00:00Z'') =
    Some \<lparr>year = 2024, month = 1, day = 2, hour = 0, minute = 0, second = 0\<rparr>"
  by code_simp

lemma jan2_not_before_jan1:
  "\<not> dt_less \<lparr>year = 2024, month = 1, day = 2, hour = 0, minute = 0, second = 0\<rparr>
              \<lparr>year = 2024, month = 1, day = 1, hour = 0, minute = 0, second = 0\<rparr>"
  by (simp add: dt_less_def dt_fields_def)

section \<open>Loading errors propagate\<close>

text \<open>
  C7: \<open>read_json_dict\<close> fails with \<open>FileNotFoundError\<close> on a missing file and with
  \<open>JSONDecodeError\<close> on a file that is not JSON; whenever it returns a value, that value
  is what the file holds, so an empty mapping is never substituted. Both endpoints
  that load a file pass the error on to their caller.
\<close>

theorem read_json_dict_propagates:
  "(fs fname = None \<longrightarrow> read_json_dict fs fname = Inl FileNotFoundError)
   \<and> (fs fname = Some NotJson \<longrightarrow> read_json_dict fs fname = Inl JSONDecodeError)
   \<and> (\<forall>v. read_json_dict fs fname = Inr v \<longrightarrow> fs fname = Some (JsonText v))
   \<and> (\<forall>e dt1 dt2. read_json_dict fs leaderboard_file = Inl e \<and> ts_parse (JStr ts1) = Some dt1
         \<and> ts_parse (JStr ts2) = Some dt2 \<and> \<not> dt_less dt2 dt1
        \<longrightarrow> leaders_timerange fs ts1 ts2 = Inl e)
   \<and> (\<forall>e dt. read_json_dict fs weather_file = Inl e \<and> ts_parse (JStr ts) = Some dt
        \<longrightarrow> weather_at_time fs ts = Inl e)"
  by (auto simp: read_json_dict_def json_load_def leaders_timerange_def weather_at_time_def
           split: option.splits content.splits)

theorem read_json_dict_propagates_witness:
  "read_json_dict Map.empty ''data/leaderboard.json'' = Inl FileNotFoundError
   \<and> read_json_dict [''data/leaderboard.json'' \<mapsto> NotJson] ''data/leaderboard.json''
       = Inl JSONDecodeError
   \<and> leaders_timerange [''data/leaderboard.json'' \<mapsto> NotJson]
        ''2024-01-01T00:00:00Z'' ''2024-01-02T00:00:00Z'' = Inl JSONDecodeError
   \<and> weather_at_time Map.empty ''2024-01-01T00:00:00Z'' = Inl FileNotFoundError"
proof -
  let ?fs = "[''data/leaderboard.json'' \<mapsto> NotJson] :: filesystem"
  note a = read_json_dict_propagates [of Map.empty "''data/leaderboard.json''"
      "''2024-01-01T00:00:00Z''" "''2024-01-02T00:00:00Z''" "''2024-01-01T00:00:00Z''"]
  note b = read_json_dict_propagates [of ?fs "''data/leaderboard.json''"
      "''2024-01-01T00:00:00Z''" "''2024-01-02T00:00:00Z''" "''2024-01-01T00:00:00Z''"]
  have 1: "read_json_dict Map.empty ''data/leaderboard.json'' = Inl FileNotFoundError"
    using a by simp
  have 2: "read_json_dict ?fs ''data/leaderboard.json'' = Inl JSONDecodeError"
    using b by simp
  have 3: "leaders_timerange ?fs ''2024-01-01T00:00:00Z'' ''2024-01-02T00:00:00Z''
        = Inl JSONDecodeError"
    using b 2 parse_jan1 parse_jan2 jan2_not_before_jan1 by (simp add: leaderboard_file_def)
  have "read_json_dict Map.empty weather_file = Inl FileNotFoundError"
    using read_json_dict_propagates [of Map.empty weather_file] by simp
  then have 4: "weather_at_time Map.empty ''2024-01-01T00:00:00Z'' = Inl FileNotFoundError"
    using a parse_jan1 by simp
  show ?thesis using 1 2 3 4 by simp
qed

section \<open>The merge loop as a fold over the entries\<close>

lemma composite_key_loop_JObj:
  "composite_key_loop repr (JObj kvs) keys vals = Inr (vals @ map (field_str repr kvs) keys)"
  by (induction keys arbitrary: vals) (auto simp: field_str_def py_str_def split: option.splits)

lemma make_composite_key_JObj:
  "make_composite_key repr (JObj kvs) unique_key_fields =
     Inr (field_str repr kvs ''start_date'' @ ''+'' @ field_str repr kvs ''athlete_name'' @ ''+''
          @ field_str repr kvs ''rank'')"
  by (simp add: make_composite_key_def unique_key_fields_def field_str_def py_str_def
           split: option.splits)

lemma make_composite_key_not_dict:
  "(\<nexists>kvs. d = JObj kvs) \<Longrightarrow> make_composite_key repr d unique_key_fields = Inl AttributeError"
  by (cases d) (simp_all add: make_composite_key_def unique_key_fields_def)

lemma make_composite_key_Inr:
  "make_composite_key repr d unique_key_fields = Inr k \<Longrightarrow> \<exists>kvs. d = JObj kvs"
  using make_composite_key_not_dict [of d repr] by auto

lemma merge_entries_fold:
  "merge_entries repr (JObj E) es = Inr D \<Longrightarrow>
     D = JObj (fold (\<lambda>e. AList.update (key_of repr e) e) es E) \<and> (\<forall>e \<in> set es. \<exists>kvs. e = JObj kvs)"
proof (induction es arbitrary: E)
  case Nil
  then show ?case by simp
next
  case (Cons e es)
  then show ?case
    by (auto simp: key_of_def split: sum.splits dest: make_composite_key_Inr)
qed

lemma merge_entries_dicts:
  "\<forall>e \<in> set es. \<exists>kvs. e = JObj kvs \<Longrightarrow>
     merge_entries repr (JObj E) es = Inr (JObj (fold (\<lambda>e. AList.update (key_of repr e) e) es E))"
proof (induction es arbitrary: E)
  case Nil
  then show ?case by simp
next
  case (Cons e es)
  then obtain kvs where e: "e = JObj kvs" by auto
  show ?case using Cons
    by (simp add: e key_of_def make_composite_key_JObj)
qed

lemma merge_entries_not_dict:
  "(\<nexists>E. d = JObj E) \<Longrightarrow> merge_entries repr d es = Inr D \<Longrightarrow> es = [] \<and> D = d"
  by (cases es; cases d) (auto split: sum.splits)


lemma update_swap_present:
  "k \<noteq> k' \<Longrightarrow> k \<in> fst ` set X \<Longrightarrow>
     AList.update k' v' (AList.update k v X) = AList.update k v (AList.update k' v' X)"
  by (induction X) auto

lemma update_key_present: "k \<in> fst ` set (AList.update k v X)"
  by (induction X) auto

lemma update_keeps_keys: "k \<in> fst ` set X \<Longrightarrow> k \<in> fst ` set (AList.update k' v X)"
  by (induction X) auto

lemma fold_update_absorb:
  "k \<in> fst ` set X \<Longrightarrow>
     fold (\<lambda>e. AList.update (f e) e) B (AList.update k v X) =
       (if k \<in> f ` set B then fold (\<lambda>e. AList.update (f e) e) B X
        else AList.update k v (fold (\<lambda>e. AList.update (f e) e) B X))"
proof (induction B arbitrary: X)
  case Nil
  then show ?case by simp
next
  case (Cons e B)
  show ?case
  proof (cases "f e = k")
    case True
    then show ?thesis by (simp add: AList.update_last)
  next
    case False
    have "AList.update (f e) e (AList.update k v X) = AList.update k v (AList.update (f e) e X)"
      using False Cons.prems by (simp add: update_swap_present)
    moreover have "k \<in> fst ` set (AList.update (f e) e X)"
      using Cons.prems by (rule update_keeps_keys)
    ultimately show ?thesis using Cons.IH False by auto
  qed
qed

lemma fold_update_idem:
  "fold (\<lambda>e. AList.update (f e) e) B (fold (\<lambda>e. AList.update (f e) e) B E) =
     fold (\<lambda>e. AList.update (f e) e) B E"
proof (induction B arbitrary: E)
  case Nil
  then show ?case by simp
next
  case (Cons e B)
  let ?F = "fold (\<lambda>e. AList.update (f e) e) B"
  let ?E' = "AList.update (f e) e E"
  have in_E': "f e \<in> fst ` set ?E'" by (rule update_key_present)
  have keys_fold: "\<And>k Y. k \<in> fst ` set Y \<Longrightarrow> k \<in> fst ` set (?F Y)"
  proof -
    fix k Y show "k \<in> fst ` set Y \<Longrightarrow> k \<in> fst ` set (?F Y)"
      by (induction B arbitrary: Y) (auto intro: update_keeps_keys)
  qed
  have in_Z: "f e \<in> fst ` set (?F ?E')" using in_E' by (rule keys_fold)
  have E'_fix: "AList.update (f e) e ?E' = ?E'" by (simp add: AList.update_last)
  show ?case
  proof (cases "f e \<in> f ` set B")
    case True
    then have "?F (AList.update (f e) e (?F ?E')) = ?F (?F ?E')"
      using fold_update_absorb [OF in_Z, of f B e] by simp
    then show ?thesis using Cons.IH by simp
  next
    case False
    then have "?F (AList.update (f e) e (?F ?E')) = AList.update (f e) e (?F (?F ?E'))"
      using fold_update_absorb [OF in_Z, of f B e] by simp
    also have "\<dots> = AList.update (f e) e (?F ?E')" using Cons.IH by simp
    also have "\<dots> = ?F (AList.update (f e) e ?E')"
      using fold_update_absorb [OF in_E', of f B e] False by simp
    also have "\<dots> = ?F ?E'" using E'_fix by simp
    finally show ?thesis by simp
  qed
qed

lemma map_of_fold_update:
  "map_of (fold (\<lambda>e. AList.update (f e) e) B E) k =
     (case find (\<lambda>e. f e = k) (rev B) of Some e \<Rightarrow> Some e | None \<Rightarrow> map_of E k)"
proof (induction B arbitrary: E rule: rev_induct)
  case Nil
  then show ?case by simp
next
  case (snoc e B)
  then show ?case by (simp add: AList.update_conv')
qed


lemma merge_entries_append:
  "merge_entries repr d (xs @ ys) =
     (case merge_entries repr d xs of Inl e \<Rightarrow> Inl e | Inr d' \<Rightarrow> merge_entries repr d' ys)"
  by (induction xs arbitrary: d) (auto split: sum.splits)

lemma merge_files_entries:
  "merge_files repr fs (JObj E) argv = Inr D \<Longrightarrow>
     merge_entries repr (JObj E) (all_entries fs argv) = Inr D"
proof (induction argv arbitrary: E)
  case Nil
  then show ?case by (simp add: all_entries_def)
next
  case (Cons f argv)
  from Cons.prems obtain es d' where
    es: "batch_entries fs f = Inr es" and
    m: "merge_entries repr (JObj E) es = Inr d'" and
    r: "merge_files repr fs d' argv = Inr D"
    by (auto simp: batch_entries_def split: sum.splits)
  from merge_entries_fold [OF m] obtain E' where d': "d' = JObj E'" by auto
  have "merge_entries repr (JObj E') (all_entries fs argv) = Inr D"
    using Cons.IH r d' by simp
  then show ?case using es m d'
    by (simp add: all_entries_def merge_entries_append)
qed

lemma last_with_key_dicts:
  "\<forall>e \<in> set es. \<exists>kvs. e = JObj kvs \<Longrightarrow>
     last_with_key repr k es = find (\<lambda>e. key_of repr e = k) (rev es)"
  unfolding last_with_key_def
  by (rule find_cong) (auto simp: key_of_def make_composite_key_JObj)

lemma merge_entries_last:
  assumes "merge_entries repr (JObj E) es = Inr D"
  shows "\<exists>D'. D = JObj D' \<and>
           (\<forall>k. map_of D' k =
              (case last_with_key repr k es of Some e \<Rightarrow> Some e | None \<Rightarrow> map_of E k))"
  using merge_entries_fold [OF assms]
  by (auto simp: last_with_key_dicts map_of_fold_update)

lemma merge_entries_idem:
  assumes "merge_entries repr E B = Inr D"
  shows "merge_entries repr D B = Inr D"
proof (cases "\<exists>kvs. E = JObj kvs")
  case True
  then obtain kvs where E: "E = JObj kvs" by auto
  from merge_entries_fold [of repr kvs B D] assms E
  have D: "D = JObj (fold (\<lambda>e. AList.update (key_of repr e) e) B kvs)"
    and dicts: "\<forall>e \<in> set B. \<exists>kvs. e = JObj kvs" by auto
  show ?thesis
    using merge_entries_dicts [OF dicts, of repr "fold (\<lambda>e. AList.update (key_of repr e) e) B kvs"]
    by (simp add: D fold_update_idem)
next
  case False
  then show ?thesis using merge_entries_not_dict [of E repr B D] assms by auto
qed

lemma key_alice1: "make_composite_key (\<lambda>v. []) alice1 unique_key_fields = Inr ''2024-01-01T00:00:00Z+alice+1''"
  by code_simp
lemma key_alice1_late: "make_composite_key (\<lambda>v. []) alice1_late unique_key_fields = Inr ''2024-01-01T00:00:00Z+alice+1''"
  by code_simp
lemma key_bob: "make_composite_key (\<lambda>v. []) bob unique_key_fields = Inr ''2024-01-02T00:00:00+bob+''"
  by code_simp

lemma merge_two_batches:
  "merge_files (\<lambda>v. []) two_batches (JObj []) [''a.json'', ''b.json''] =
     Inr (JObj [(''2024-01-01T00:00:00Z+alice+1'', alice1_late), (''2024-01-02T00:00:00+bob+'', bob)])"
  by (simp add: two_batches_def json_load_def key_alice1 key_alice1_late key_bob)

lemma merge_one_batch:
  "merge_entries (\<lambda>v. []) (JObj []) [alice1, bob, alice1_late] =
     Inr (JObj [(''2024-01-01T00:00:00Z+alice+1'', alice1_late), (''2024-01-02T00:00:00+bob+'', bob)])"
  by (simp add: key_alice1 key_alice1_late key_bob)

section \<open>Merge precedence\<close>

text \<open>
  C4: merging overwrites. After a merge that returns, the value stored under a key is
  the last entry, in the order the entries are applied, whose composite key is that key,
  and the existing value when no entry has that key. This holds for the entries of one
  batch and for the entries of all the batch files of a run taken in order, so of two
  entries with the same composite key the one applied later is retained.
\<close>

theorem merge_last_write_wins:
  "(merge_entries repr (JObj E) entries = Inr D \<longrightarrow>
      (\<exists>D'. D = JObj D' \<and>
         (\<forall>k. map_of D' k =
            (case last_with_key repr k entries of Some e \<Rightarrow> Some e | None \<Rightarrow> map_of E k))))
   \<and> (merge_files repr fs (JObj E) argv = Inr D \<longrightarrow>
      (\<exists>D'. D = JObj D' \<and>
         (\<forall>k. map_of D' k =
            (case last_with_key repr k (all_entries fs argv) of
               Some e \<Rightarrow> Some e
             | None \<Rightarrow> map_of E k))))"
  using merge_entries_last merge_files_entries by blast

theorem merge_last_write_wins_witness:
  "merge_entries (\<lambda>v. []) (JObj []) [alice1, bob, alice1_late] =
     Inr (JObj [(''2024-01-01T00:00:00Z+alice+1'', alice1_late), (''2024-01-02T00:00:00+bob+'', bob)])
   \<and> last_with_key (\<lambda>v. []) ''2024-01-01T00:00:00Z+alice+1'' [alice1, bob, alice1_late] = Some alice1_late
   \<and> merge_files (\<lambda>v. []) two_batches (JObj []) [''a.json'', ''b.json''] =
     Inr (JObj [(''2024-01-01T00:00:00Z+alice+1'', alice1_late), (''2024-01-02T00:00:00+bob+'', bob)])
   \<and> last_with_key (\<lambda>v. []) ''2024-01-01T00:00:00Z+alice+1'' (all_entries two_batches [''a.json'', ''b.json''])
       = Some alice1_late"
proof -
  let ?D = "JObj [(''2024-01-01T00:00:00Z+alice+1'', alice1_late), (''2024-01-02T00:00:00+bob+'', bob)]"
  note inst = merge_last_write_wins [of "\<lambda>v. []" "[]" "[alice1, bob, alice1_late]" ?D two_batches
      "[''a.json'', ''b.json'']"]
  from inst merge_one_batch obtain D' where
    "?D = JObj D'" and
    l: "\<And>k. map_of D' k = (case last_with_key (\<lambda>v. []) k [alice1, bob, alice1_late] of
          Some e \<Rightarrow> Some e | None \<Rightarrow> map_of [] k)"
    by blast
  then have D': "D' = [(''2024-01-01T00:00:00Z+alice+1'', alice1_late), (''2024-01-02T00:00:00+bob+'', bob)]"
    by simp
  have 1: "last_with_key (\<lambda>v. []) ''2024-01-01T00:00:00Z+alice+1'' [alice1, bob, alice1_late] = Some alice1_late"
    using l [of "''2024-01-01T00:00:00Z+alice+1''"] by (simp add: D' split: option.splits)
  from inst merge_two_batches obtain D'' where
    "?D = JObj D''" and
    l2: "\<And>k. map_of D'' k = (case last_with_key (\<lambda>v. []) k (all_entries two_batches [''a.json'', ''b.json'']) of
          Some e \<Rightarrow> Some e | None \<Rightarrow> map_of [] k)"
    by blast
  then have D'': "D'' = [(''2024-01-01T00:00:00Z+alice+1'', alice1_late), (''2024-01-02T00:00:00+bob+'', bob)]"
    by simp
  have 2: "last_with_key (\<lambda>v. []) ''2024-01-01T00:00:00Z+alice+1'' (all_entries two_batches [''a.json'', ''b.json''])
       = Some alice1_late"
    using l2 [of "''2024-01-01T00:00:00Z+alice+1''"] by (simp add: D'' split: option.splits)
  show ?thesis using merge_one_batch merge_two_batches 1 2 by simp
qed

section \<open>Merge idempotence\<close>

text \<open>
  C5: merging a batch into the result of merging the same batch gives that result again,
  the same dict with the same order of keys. For a batch file, passing the file twice
  gives what passing it once gives, errors included.
\<close>

theorem merge_idempotent:
  "(merge_entries repr E B = Inr D \<longrightarrow> merge_entries repr D B = Inr D)
   \<and> merge_files repr fs E [f, f] = merge_files repr fs E [f]"
  by (auto simp: merge_entries_idem split: sum.splits)

theorem merge_idempotent_witness:
  "merge_entries (\<lambda>v. []) (JObj []) [alice1, bob, alice1_late] =
     Inr (JObj [(''2024-01-01T00:00:00Z+alice+1'', alice1_late), (''2024-01-02T00:00:00+bob+'', bob)])
   \<and> merge_entries (\<lambda>v. [])
       (JObj [(''2024-01-01T00:00:00Z+alice+1'', alice1_late), (''2024-01-02T00:00:00+bob+'', bob)])
       [alice1, bob, alice1_late] =
     Inr (JObj [(''2024-01-01T00:00:00Z+alice+1'', alice1_late), (''2024-01-02T00:00:00+bob+'', bob)])"
  using merge_idempotent [of "\<lambda>v. []" "JObj []" "[alice1, bob, alice1_late]"
      "JObj [(''2024-01-01T00:00:00Z+alice+1'', alice1_late), (''2024-01-02T00:00:00+bob+'', bob)]"]
    merge_one_batch by simp

section \<open>The composite key invariant\<close>



section \<open>A run that cannot read a batch writes nothing\<close>

lemma merge_files_append:
  "merge_files repr fs d (xs @ ys) =
     (case merge_files repr fs d xs of Inl e \<Rightarrow> Inl e | Inr d' \<Rightarrow> merge_files repr fs d' ys)"
  by (induction xs arbitrary: d) (auto split: sum.splits)

lemma merge_files_bad_first:
  "fs bad = Some NotJson \<Longrightarrow> merge_files repr fs d (bad # post) = Inl JSONDecodeError"
  by (simp add: json_load_def)

lemma merge_files_missing_first:
  "fs f = None \<Longrightarrow> merge_files repr fs d (f # post) = Inl FileNotFoundError"
  by (simp add: json_load_def)

text \<open>A failed loop failed at a first file: the files before it merged, and it did not.\<close>

lemma merge_files_first_error:
  "merge_files repr fs d argv = Inl e \<Longrightarrow>
     \<exists>ok f rest d'. argv = ok @ f # rest \<and> merge_files repr fs d ok = Inr d'
        \<and> merge_files repr fs d' [f] = Inl e"
proof (induction argv arbitrary: d)
  case Nil
  then show ?case by simp
next
  case (Cons a argv)
  show ?case
  proof (cases "merge_files repr fs d [a]")
    case (Inl e')
    then have "e' = e" using Cons.prems merge_files_append [of repr fs d "[a]" argv] by simp
    then have "a # argv = [] @ a # argv \<and> merge_files repr fs d [] = Inr d
        \<and> merge_files repr fs d [a] = Inl e" using Inl by simp
    then show ?thesis by blast
  next
    case (Inr d1)
    then have "merge_files repr fs d1 argv = Inl e"
      using Cons.prems merge_files_append [of repr fs d "[a]" argv] by simp
    from Cons.IH [OF this] obtain ok f rest d' where
      1: "argv = ok @ f # rest" and 2: "merge_files repr fs d1 ok = Inr d'"
      and 3: "merge_files repr fs d' [f] = Inl e" by blast
    have "merge_files repr fs d (a # ok) = Inr d'"
      using Inr 2 merge_files_append [of repr fs d "[a]" ok] by simp
    then have "a # argv = (a # ok) @ f # rest \<and> merge_files repr fs d (a # ok) = Inr d'
        \<and> merge_files repr fs d' [f] = Inl e" using 1 3 by simp
    then show ?thesis by blast
  qed
qed

lemma merge_files_fails_at:
  assumes "merge_files repr fs d ok = Inr d'" and "merge_files repr fs d' [f] = Inl e"
  shows "merge_files repr fs d (ok @ f # rest) = Inl e"
proof -
  have "merge_files repr fs d' (f # rest) = Inl e"
    using assms(2) merge_files_append [of repr fs d' "[f]" rest] by simp
  then show ?thesis using assms(1) by (simp add: merge_files_append)
qed

text \<open>
  C6 (as amended): when a batch file of the command line is not JSON, the run fails and
  the only file system that ever exists is the initial one: nothing is written, the
  temporary file is never created and the leaderboard file is untouched. The error of a
  failed run is that of the first file in command-line order that cannot be merged into
  the data accumulated from the files before it, and such a first file exists in every
  failed run. So the error is \<open>JSONDecodeError\<close> when the files before the malformed one
  merge without error; when they do not, it is the error they fail with, whatever
  follows them; and it is \<open>FileNotFoundError\<close> when the first file that cannot be merged
  is a missing one. In every run, failed or not, every file system that exists holds
  under the leaderboard path either what it held before the run or the complete new
  dataset.
\<close>

theorem merge_run_fails_before_any_write:
  "(fs bad = Some NotJson \<longrightarrow>
      (\<exists>e. update_leaderboard repr (pre @ bad # post) tmpname fs = (Inl e, [fs]))
      \<and> (\<forall>d. merge_files repr fs (load_existing fs) pre = Inr d \<longrightarrow>
            update_leaderboard repr (pre @ bad # post) tmpname fs = (Inl JSONDecodeError, [fs]))
      \<and> (\<forall>e. merge_files repr fs (load_existing fs) early = Inl e \<longrightarrow>
            update_leaderboard repr (early @ bad # post) tmpname fs = (Inl e, [fs])))
   \<and> (\<forall>d. merge_files repr fs (load_existing fs) ok = Inr d \<and> fs missing = None \<longrightarrow>
         update_leaderboard repr (ok @ missing # rest) tmpname fs = (Inl FileNotFoundError, [fs]))
   \<and> (\<forall>d e. merge_files repr fs (load_existing fs) ok = Inr d \<and> merge_files repr fs d [f] = Inl e \<longrightarrow>
         update_leaderboard repr (ok @ f # rest) tmpname fs = (Inl e, [fs]))
   \<and> (\<forall>e. merge_files repr fs (load_existing fs) argv = Inl e \<longrightarrow>
         (\<exists>ok f rest d. argv = ok @ f # rest \<and> merge_files repr fs (load_existing fs) ok = Inr d
             \<and> merge_files repr fs d [f] = Inl e)
         \<and> update_leaderboard repr argv tmpname fs = (Inl e, [fs]))
   \<and> (tmpname \<noteq> tool_leaderboard_file \<longrightarrow>
      (\<forall>s \<in> set (snd (update_leaderboard repr argv tmpname fs)).
          s tool_leaderboard_file = fs tool_leaderboard_file
          \<or> (\<exists>data. merge_files repr fs (load_existing fs) argv = Inr data
                \<and> s tool_leaderboard_file = Some (JsonText (sort_keys data)))))"
proof (intro conjI impI allI)
  assume bad: "fs bad = Some NotJson"
  show "\<exists>e. update_leaderboard repr (pre @ bad # post) tmpname fs = (Inl e, [fs])"
    using merge_files_bad_first [of fs bad, OF bad]
    by (auto simp: update_leaderboard_def merge_files_append split: sum.splits)
next
  fix d
  assume bad: "fs bad = Some NotJson"
    and pre: "merge_files repr fs (load_existing fs) pre = Inr d"
  show "update_leaderboard repr (pre @ bad # post) tmpname fs = (Inl JSONDecodeError, [fs])"
    using merge_files_bad_first [of fs bad, OF bad] pre
    by (simp add: update_leaderboard_def merge_files_append)
next
  fix e
  assume "merge_files repr fs (load_existing fs) early = Inl e"
  then show "update_leaderboard repr (early @ bad # post) tmpname fs = (Inl e, [fs])"
    by (simp add: update_leaderboard_def merge_files_append)
next
  fix d
  assume "merge_files repr fs (load_existing fs) ok = Inr d \<and> fs missing = None"
  then show "update_leaderboard repr (ok @ missing # rest) tmpname fs = (Inl FileNotFoundError, [fs])"
    using merge_files_missing_first [of fs missing repr d rest]
    by (simp add: update_leaderboard_def merge_files_append)
next
  fix d e
  assume "merge_files repr fs (load_existing fs) ok = Inr d \<and> merge_files repr fs d [f] = Inl e"
  then show "update_leaderboard repr (ok @ f # rest) tmpname fs = (Inl e, [fs])"
    using merge_files_fails_at [of repr fs "load_existing fs" ok d f e rest]
    by (simp add: update_leaderboard_def)
next
  fix e
  assume "merge_files repr fs (load_existing fs) argv = Inl e"
  then show "\<exists>ok f rest d. argv = ok @ f # rest \<and> merge_files repr fs (load_existing fs) ok = Inr d
             \<and> merge_files repr fs d [f] = Inl e"
    by (rule merge_files_first_error)
next
  fix e
  assume "merge_files repr fs (load_existing fs) argv = Inl e"
  then show "update_leaderboard repr argv tmpname fs = (Inl e, [fs])"
    by (simp add: update_leaderboard_def)
next
  assume "tmpname \<noteq> tool_leaderboard_file"
  then show "\<forall>s \<in> set (snd (update_leaderboard repr argv tmpname fs)).
          s tool_leaderboard_file = fs tool_leaderboard_file
          \<or> (\<exists>data. merge_files repr fs (load_existing fs) argv = Inr data
                \<and> s tool_leaderboard_file = Some (JsonText (sort_keys data)))"
    by (auto simp: update_leaderboard_def split: sum.splits)
qed

theorem merge_run_parse_error_counterexample:
  "[''bad.json'' \<mapsto> NotJson] ''bad.json'' = Some NotJson
   \<and> fst (update_leaderboard (\<lambda>v. []) [''missing.json'', ''bad.json''] ''tmpk3v9x2ab''
            [''bad.json'' \<mapsto> NotJson]) = Inl FileNotFoundError"
  by (simp add: update_leaderboard_def json_load_def)

lemma merge_a_json:
  "merge_files (\<lambda>v. []) bad_run (load_existing bad_run) [''a.json''] =
     Inr (JObj [(''2024-01-01T00:00:00Z+alice+1'', alice1), (''2024-01-02T00:00:00+bob+'', bob)])"
  by (simp add: bad_run_def two_batches_def json_load_def load_existing_def tool_leaderboard_file_def
      key_alice1 key_bob)

lemma merge_missing_json:
  "merge_files (\<lambda>v. []) bad_run (load_existing bad_run) [''missing.json''] = Inl FileNotFoundError"
  by (simp add: bad_run_def two_batches_def json_load_def)

lemma merge_a_bad_json:
  "merge_files (\<lambda>v. []) bad_run (load_existing bad_run) [''a.json'', ''bad.json'', ''b.json'']
     = Inl JSONDecodeError"
proof -
  have bad: "bad_run ''bad.json'' = Some NotJson" by (simp add: bad_run_def)
  have "merge_files (\<lambda>v. []) bad_run (load_existing bad_run) ([''a.json''] @ [''bad.json'', ''b.json''])
      = Inl JSONDecodeError"
    unfolding merge_files_append merge_a_json
    using merge_files_bad_first [of bad_run "''bad.json''", OF bad] by simp
  then show ?thesis by simp
qed

theorem merge_run_fails_before_any_write_witness:
  "bad_run ''bad.json'' = Some NotJson
   \<and> bad_run ''missing.json'' = None
   \<and> update_leaderboard (\<lambda>v. []) [''a.json'', ''bad.json'', ''b.json''] ''tmpk3v9x2ab'' bad_run
       = (Inl JSONDecodeError, [bad_run])
   \<and> update_leaderboard (\<lambda>v. []) [''missing.json'', ''bad.json'', ''b.json''] ''tmpk3v9x2ab'' bad_run
       = (Inl FileNotFoundError, [bad_run])
   \<and> update_leaderboard (\<lambda>v. []) [''a.json'', ''missing.json'', ''bad.json''] ''tmpk3v9x2ab'' bad_run
       = (Inl FileNotFoundError, [bad_run])
   \<and> (\<exists>ok f rest d. [''a.json'', ''bad.json'', ''b.json''] = ok @ f # rest
         \<and> merge_files (\<lambda>v. []) bad_run (load_existing bad_run) ok = Inr d
         \<and> merge_files (\<lambda>v. []) bad_run d [f] = Inl JSONDecodeError)
   \<and> ''tmpk3v9x2ab'' \<noteq> tool_leaderboard_file
   \<and> list_all (\<lambda>s. s tool_leaderboard_file = bad_run tool_leaderboard_file)
       (snd (update_leaderboard (\<lambda>v. []) [''a.json'', ''bad.json'', ''b.json''] ''tmpk3v9x2ab'' bad_run))"
proof -
  have bad: "bad_run ''bad.json'' = Some NotJson" by (simp add: bad_run_def)
  have missing: "bad_run ''missing.json'' = None" by (simp add: bad_run_def two_batches_def)
  have tmp: "''tmpk3v9x2ab'' \<noteq> tool_leaderboard_file" by (simp add: tool_leaderboard_file_def)
  note inst = merge_run_fails_before_any_write [where fs = bad_run and bad = "''bad.json''"
      and repr = "\<lambda>v. []" and pre = "[''a.json'']" and post = "[''b.json'']"
      and tmpname = "''tmpk3v9x2ab''" and early = "[''missing.json'']" and ok = "[''a.json'']"
      and missing = "''missing.json''" and rest = "[''bad.json'']" and f = "''missing.json''"
      and argv = "[''a.json'', ''bad.json'', ''b.json'']"]
  have run: "update_leaderboard (\<lambda>v. []) [''a.json'', ''bad.json'', ''b.json''] ''tmpk3v9x2ab'' bad_run
       = (Inl JSONDecodeError, [bad_run])"
    using inst bad merge_a_json by simp
  have early: "update_leaderboard (\<lambda>v. []) [''missing.json'', ''bad.json'', ''b.json''] ''tmpk3v9x2ab'' bad_run
       = (Inl FileNotFoundError, [bad_run])"
    using inst bad merge_missing_json by simp
  have late: "update_leaderboard (\<lambda>v. []) [''a.json'', ''missing.json'', ''bad.json''] ''tmpk3v9x2ab'' bad_run
       = (Inl FileNotFoundError, [bad_run])"
    using inst missing merge_a_json by simp
  have first: "\<exists>ok f rest d. [''a.json'', ''bad.json'', ''b.json''] = ok @ f # rest
         \<and> merge_files (\<lambda>v. []) bad_run (load_existing bad_run) ok = Inr d
         \<and> merge_files (\<lambda>v. []) bad_run d [f] = Inl JSONDecodeError"
    using inst merge_a_bad_json by simp
  show ?thesis using bad missing run early late first tmp by simp
qed

section \<open>The nearest observation\<close>

lemma weather_loop_nearest:
  assumes "\<forall>ob \<in> set obs. \<exists>p ts dt. getitem ob ''properties'' = Inr p \<and> getitem p ''timestamp'' = Inr ts
              \<and> ts_parse ts = Some dt \<and> P ob = p \<and> D ob = abs_diff t dt"
  shows "(weather_loop (Some t) obs nearest weather = Inr weather
            \<and> (nearest = None \<longrightarrow> obs = [])
            \<and> (\<forall>n. nearest = Some n \<longrightarrow> (\<forall>x \<in> set obs. n \<le> D x)))
         \<or> (\<exists>before ob after. obs = before @ ob # after
              \<and> weather_loop (Some t) obs nearest weather = Inr (P ob)
              \<and> (\<forall>x \<in> set before. D ob < D x) \<and> (\<forall>x \<in> set after. D ob \<le> D x)
              \<and> (\<forall>n. nearest = Some n \<longrightarrow> D ob < n))"
  using assms
proof (induction obs arbitrary: nearest weather)
  case Nil
  then show ?case by simp
next
  case (Cons a obs)
  from Cons.prems obtain p ts dt where
    a: "getitem a ''properties'' = Inr p" "getitem p ''timestamp'' = Inr ts"
       "ts_parse ts = Some dt" "P a = p" "D a = abs_diff t dt"
    by auto
  have rest: "\<forall>ob \<in> set obs. \<exists>p ts dt. getitem ob ''properties'' = Inr p \<and> getitem p ''timestamp'' = Inr ts
              \<and> ts_parse ts = Some dt \<and> P ob = p \<and> D ob = abs_diff t dt"
    using Cons.prems by simp
  show ?case
  proof (cases "case nearest of None \<Rightarrow> True | Some n \<Rightarrow> D a < n")
    case True
    then have step: "weather_loop (Some t) (a # obs) nearest weather
        = weather_loop (Some t) obs (Some (D a)) p"
      using a by (cases nearest) (simp_all add: abs_sub_def)
    from Cons.IH [OF rest, of "Some (D a)" p]
    show ?thesis
    proof
      assume h: "weather_loop (Some t) obs (Some (D a)) p = Inr p
            \<and> (Some (D a) = None \<longrightarrow> obs = [])
            \<and> (\<forall>n. Some (D a) = Some n \<longrightarrow> (\<forall>x \<in> set obs. n \<le> D x))"
      have "a # obs = [] @ a # obs
              \<and> weather_loop (Some t) (a # obs) nearest weather = Inr (P a)
              \<and> (\<forall>x \<in> set []. D a < D x) \<and> (\<forall>x \<in> set obs. D a \<le> D x)
              \<and> (\<forall>n. nearest = Some n \<longrightarrow> D a < n)"
        using h step a True by (auto split: option.splits)
      then show ?thesis by blast
    next
      assume "\<exists>before ob after. obs = before @ ob # after
              \<and> weather_loop (Some t) obs (Some (D a)) p = Inr (P ob)
              \<and> (\<forall>x \<in> set before. D ob < D x) \<and> (\<forall>x \<in> set after. D ob \<le> D x)
              \<and> (\<forall>n. Some (D a) = Some n \<longrightarrow> D ob < n)"
      then obtain before ob after where h: "obs = before @ ob # after"
          "weather_loop (Some t) obs (Some (D a)) p = Inr (P ob)"
          "\<forall>x \<in> set before. D ob < D x" "\<forall>x \<in> set after. D ob \<le> D x" "D ob < D a"
        by auto
      have "a # obs = (a # before) @ ob # after
              \<and> weather_loop (Some t) (a # obs) nearest weather = Inr (P ob)
              \<and> (\<forall>x \<in> set (a # before). D ob < D x) \<and> (\<forall>x \<in> set after. D ob \<le> D x)
              \<and> (\<forall>n. nearest = Some n \<longrightarrow> D ob < n)"
        using h step True by (auto split: option.splits)
      then show ?thesis by blast
    qed
  next
    case False
    then obtain n where n: "nearest = Some n" "n \<le> D a"
      by (auto split: option.splits)
    then have step: "weather_loop (Some t) (a # obs) nearest weather
        = weather_loop (Some t) obs nearest weather"
      using a by (simp add: abs_sub_def)
    from Cons.IH [OF rest, of nearest weather]
    show ?thesis
    proof
      assume h: "weather_loop (Some t) obs nearest weather = Inr weather
            \<and> (nearest = None \<longrightarrow> obs = [])
            \<and> (\<forall>n. nearest = Some n \<longrightarrow> (\<forall>x \<in> set obs. n \<le> D x))"
      then show ?thesis using step n by auto
    next
      assume "\<exists>before ob after. obs = before @ ob # after
              \<and> weather_loop (Some t) obs nearest weather = Inr (P ob)
              \<and> (\<forall>x \<in> set before. D ob < D x) \<and> (\<forall>x \<in> set after. D ob \<le> D x)
              \<and> (\<forall>n. nearest = Some n \<longrightarrow> D ob < n)"
      then obtain before ob after where h: "obs = before @ ob # after"
          "weather_loop (Some t) obs nearest weather = Inr (P ob)"
          "\<forall>x \<in> set before. D ob < D x" "\<forall>x \<in> set after. D ob \<le> D x" "D ob < n"
        using n by auto
      have "a # obs = (a # before) @ ob # after
              \<and> weather_loop (Some t) (a # obs) nearest weather = Inr (P ob)
              \<and> (\<forall>x \<in> set (a # before). D ob < D x) \<and> (\<forall>x \<in> set after. D ob \<le> D x)
              \<and> (\<forall>n. nearest = Some n \<longrightarrow> D ob < n)"
        using h step n by auto
      then show ?thesis by blast
    qed
  qed
qed

lemma obs_time_Some:
  "obs_time ob = Some dt \<Longrightarrow>
     \<exists>p ts. getitem ob ''properties'' = Inr p \<and> getitem p ''timestamp'' = Inr ts \<and> ts_parse ts = Some dt"
  by (auto simp: obs_time_def obs_timestamp_def split: sum.splits)

lemma three_obs_parse: "list_all (\<lambda>ob. obs_time ob \<noteq> None) three_obs"
  by code_simp

lemma three_obs_result:
  "weather_find (Some noon) (JObj [(''features'', JArr three_obs)]) =
     Inr (JObj [(''timestamp'', JStr ''2024-01-01T11:00:00Z''), (''temperature'', JObj [(''value'', JInt 5)])])"
  by code_simp

lemma three_obs_dist:
  "map (\<lambda>ob. map_option (abs_diff noon) (obs_time ob)) three_obs = [Some 3600, Some 3600, Some 7200]"
  by code_simp

text \<open>
  C2: for a non-empty sequence of observations whose timestamps all parse,
  \<open>weather_find\<close> returns the \<^verbatim>\<open>properties\<close> of an observation at minimal absolute
  distance from the target, and of the first such observation in input order: every
  observation before it is strictly farther, every observation after it at least as
  far (the test is a strict \<^verbatim>\<open><\<close>).
\<close>

theorem weather_find_nearest:
  assumes "getitem events ''features'' = Inr (JArr obs)"
    and "obs \<noteq> []"
    and "\<forall>ob \<in> set obs. obs_time ob \<noteq> None"
  shows "\<exists>before ob after p dt.
           obs = before @ ob # after
           \<and> getitem ob ''properties'' = Inr p \<and> obs_time ob = Some dt
           \<and> weather_find (Some t) events = Inr p
           \<and> (\<forall>x \<in> set before. \<exists>dx. obs_time x = Some dx \<and> abs_diff t dt < abs_diff t dx)
           \<and> (\<forall>x \<in> set after. \<exists>dx. obs_time x = Some dx \<and> abs_diff t dt \<le> abs_diff t dx)"
proof -
  define P where "P = (\<lambda>ob. case getitem ob ''properties'' of Inr p \<Rightarrow> p | Inl e \<Rightarrow> JNull)"
  define D where "D = (\<lambda>ob. case obs_time ob of Some dt \<Rightarrow> abs_diff t dt | None \<Rightarrow> 0)"
  have pre: "\<forall>ob \<in> set obs. \<exists>p ts dt. getitem ob ''properties'' = Inr p \<and> getitem p ''timestamp'' = Inr ts
              \<and> ts_parse ts = Some dt \<and> P ob = p \<and> D ob = abs_diff t dt"
  proof
    fix ob assume "ob \<in> set obs"
    then obtain dt where dt: "obs_time ob = Some dt" using assms(3) by auto
    from obs_time_Some [OF dt] obtain p ts where
      "getitem ob ''properties'' = Inr p" "getitem p ''timestamp'' = Inr ts" "ts_parse ts = Some dt"
      by auto
    then show "\<exists>p ts dt. getitem ob ''properties'' = Inr p \<and> getitem p ''timestamp'' = Inr ts
              \<and> ts_parse ts = Some dt \<and> P ob = p \<and> D ob = abs_diff t dt"
      using dt by (simp add: P_def D_def)
  qed
  have find: "weather_find (Some t) events = weather_loop (Some t) obs None JNull"
    using assms(1) by (simp add: weather_find_def)
  have "(weather_loop (Some t) obs None JNull = Inr JNull
            \<and> ((None :: int option) = None \<longrightarrow> obs = [])
            \<and> (\<forall>n. (None :: int option) = Some n \<longrightarrow> (\<forall>x \<in> set obs. n \<le> D x)))
         \<or> (\<exists>before ob after. obs = before @ ob # after
              \<and> weather_loop (Some t) obs None JNull = Inr (P ob)
              \<and> (\<forall>x \<in> set before. D ob < D x) \<and> (\<forall>x \<in> set after. D ob \<le> D x)
              \<and> (\<forall>n. (None :: int option) = Some n \<longrightarrow> D ob < n))"
    by (rule weather_loop_nearest [OF pre])
  then have "\<exists>before ob after. obs = before @ ob # after
              \<and> weather_loop (Some t) obs None JNull = Inr (P ob)
              \<and> (\<forall>x \<in> set before. D ob < D x) \<and> (\<forall>x \<in> set after. D ob \<le> D x)"
    using assms(2) by simp
  then obtain before ob after where h: "obs = before @ ob # after"
      "weather_loop (Some t) obs None JNull = Inr (P ob)"
      "\<forall>x \<in> set before. D ob < D x" "\<forall>x \<in> set after. D ob \<le> D x"
    by blast
  have D_eq: "\<exists>dx. obs_time x = Some dx \<and> D x = abs_diff t dx" if "x \<in> set obs" for x
    using that assms(3) by (auto simp: D_def)
  have ob_in: "ob \<in> set obs" using h(1) by simp
  from D_eq [OF ob_in] obtain dt where dt: "obs_time ob = Some dt" "D ob = abs_diff t dt" by auto
  from pre ob_in have p: "getitem ob ''properties'' = Inr (P ob)" by auto
  have b: "\<forall>x \<in> set before. \<exists>dx. obs_time x = Some dx \<and> abs_diff t dt < abs_diff t dx"
  proof
    fix x assume x: "x \<in> set before"
    then have "x \<in> set obs" using h(1) by simp
    from D_eq [OF this] obtain dx where "obs_time x = Some dx" "D x = abs_diff t dx" by auto
    then show "\<exists>dx. obs_time x = Some dx \<and> abs_diff t dt < abs_diff t dx"
      using h(3) x dt by auto
  qed
  have a: "\<forall>x \<in> set after. \<exists>dx. obs_time x = Some dx \<and> abs_diff t dt \<le> abs_diff t dx"
  proof
    fix x assume x: "x \<in> set after"
    then have "x \<in> set obs" using h(1) by simp
    from D_eq [OF this] obtain dx where "obs_time x = Some dx" "D x = abs_diff t dx" by auto
    then show "\<exists>dx. obs_time x = Some dx \<and> abs_diff t dt \<le> abs_diff t dx"
      using h(4) x dt by auto
  qed
  have all: "obs = before @ ob # after
           \<and> getitem ob ''properties'' = Inr (P ob) \<and> obs_time ob = Some dt
           \<and> weather_find (Some t) events = Inr (P ob)
           \<and> (\<forall>x \<in> set before. \<exists>dx. obs_time x = Some dx \<and> abs_diff t dt < abs_diff t dx)
           \<and> (\<forall>x \<in> set after. \<exists>dx. obs_time x = Some dx \<and> abs_diff t dt \<le> abs_diff t dx)"
    using h(1) p dt(1) find h(2) b a by simp
  show ?thesis
    apply (rule exI [of _ before])
    apply (rule exI [of _ ob])
    apply (rule exI [of _ after])
    apply (rule exI [of _ "P ob"])
    apply (rule exI [of _ dt])
    apply (rule all)
    done
qed

theorem weather_find_nearest_witness:
  "getitem (JObj [(''features'', JArr three_obs)]) ''features'' = Inr (JArr three_obs)
   \<and> three_obs \<noteq> []
   \<and> list_all (\<lambda>ob. obs_time ob \<noteq> None) three_obs
   \<and> weather_find (Some noon) (JObj [(''features'', JArr three_obs)]) =
       Inr (JObj [(''timestamp'', JStr ''2024-01-01T11:00:00Z''), (''temperature'', JObj [(''value'', JInt 5)])])
   \<and> map (\<lambda>ob. map_option (abs_diff noon) (obs_time ob)) three_obs = [Some 3600, Some 3600, Some 7200]
   \<and> (\<exists>before ob after p dt.
           three_obs = before @ ob # after
           \<and> getitem ob ''properties'' = Inr p \<and> obs_time ob = Some dt
           \<and> weather_find (Some noon) (JObj [(''features'', JArr three_obs)]) = Inr p
           \<and> (\<forall>x \<in> set before. \<exists>dx. obs_time x = Some dx \<and> abs_diff noon dt < abs_diff noon dx)
           \<and> (\<forall>x \<in> set after. \<exists>dx. obs_time x = Some dx \<and> abs_diff noon dt \<le> abs_diff noon dx))"
proof -
  have 1: "getitem (JObj [(''features'', JArr three_obs)]) ''features'' = Inr (JArr three_obs)"
    by simp
  have 2: "three_obs \<noteq> []" by (simp add: three_obs_def)
  have 3: "\<forall>ob \<in> set three_obs. obs_time ob \<noteq> None"
    using three_obs_parse by (simp add: list_all_iff)
  show ?thesis
    using weather_find_nearest [OF 1 2 3, of noon] 1 2 three_obs_parse three_obs_result three_obs_dist
    by simp
qed

section \<open>Observations whose timestamp does not parse\<close>

lemma weather_loop_unparseable:
  assumes "\<forall>ob \<in> set obs. \<exists>ts. obs_timestamp ob = Inr ts"
    and "\<exists>ob \<in> set obs. obs_time ob = None"
  shows "weather_loop (Some t) obs nearest weather = Inl TypeError"
  using assms
proof (induction obs arbitrary: nearest weather)
  case Nil
  then show ?case by simp
next
  case (Cons a obs)
  from Cons.prems(1) obtain p ts where
    a: "getitem a ''properties'' = Inr p" "getitem p ''timestamp'' = Inr ts"
    by (auto simp: obs_timestamp_def split: sum.splits)
  show ?case
  proof (cases "ts_parse ts")
    case None
    then show ?thesis using a by (simp add: abs_sub_def)
  next
    case (Some dt)
    then have "obs_time a \<noteq> None" using a by (simp add: obs_time_def obs_timestamp_def)
    then have "\<exists>ob \<in> set obs. obs_time ob = None" using Cons.prems(2) by auto
    moreover have "\<forall>ob \<in> set obs. \<exists>ts. obs_timestamp ob = Inr ts" using Cons.prems(1) by simp
    ultimately have "\<And>n w. weather_loop (Some t) obs n w = Inl TypeError"
      using Cons.IH by blast
    then show ?thesis using a Some by (simp add: abs_sub_def)
  qed
qed

text \<open>
  C3 (as amended): for an empty sequence of observations \<open>weather_find\<close> returns \<^verbatim>\<open>None\<close>
  and no error. An observation whose timestamp does not parse is not skipped: when
  every observation has a timestamp field and at least one of them does not parse (in
  particular when none parses), the search fails with \<open>TypeError\<close>, raised by the
  subtraction \<^verbatim>\<open>dt - None\<close>.
\<close>

theorem weather_find_unparseable_fails:
  "(getitem events ''features'' = Inr (JArr []) \<longrightarrow> weather_find (Some t) events = Inr JNull)
   \<and> (getitem events ''features'' = Inr (JArr obs)
        \<and> (\<forall>ob \<in> set obs. \<exists>ts. obs_timestamp ob = Inr ts)
        \<and> (\<exists>ob \<in> set obs. obs_time ob = None)
      \<longrightarrow> weather_find (Some t) events = Inl TypeError)"
  by (auto simp: weather_find_def weather_loop_unparseable)

theorem weather_find_skips_counterexample:
  "ts_parse (JStr ''yesterday'') = None
   \<and> weather_find (Some noon) (JObj [(''features'', JArr [unparseable_obs])]) = Inl TypeError"
  by code_simp

lemma mixed_obs_facts:
  "list_all (\<lambda>ob. \<not> isl (obs_timestamp ob)) (three_obs @ [unparseable_obs])
   \<and> obs_time unparseable_obs = None"
  by code_simp

theorem weather_find_unparseable_fails_witness:
  "weather_find (Some noon) (JObj [(''features'', JArr [])]) = Inr JNull
   \<and> obs_time unparseable_obs = None
   \<and> weather_find (Some noon) (JObj [(''features'', JArr (three_obs @ [unparseable_obs]))])
       = Inl TypeError"
proof -
  have e: "getitem (JObj [(''features'', JArr [])]) ''features'' = Inr (JArr [])" by simp
  have 1: "weather_find (Some noon) (JObj [(''features'', JArr [])]) = Inr JNull"
    using weather_find_unparseable_fails [of "JObj [(''features'', JArr [])]" noon] e by simp
  let ?obs = "three_obs @ [unparseable_obs]"
  have f: "getitem (JObj [(''features'', JArr ?obs)]) ''features'' = Inr (JArr ?obs)" by simp
  have ts: "\<forall>ob \<in> set ?obs. \<exists>ts. obs_timestamp ob = Inr ts"
  proof
    fix ob assume "ob \<in> set ?obs"
    then have "\<not> isl (obs_timestamp ob)" using mixed_obs_facts by (auto simp: list_all_iff)
    then show "\<exists>ts. obs_timestamp ob = Inr ts" by (cases "obs_timestamp ob") auto
  qed
  have bad: "\<exists>ob \<in> set ?obs. obs_time ob = None" using mixed_obs_facts by auto
  have 2: "weather_find (Some noon) (JObj [(''features'', JArr ?obs)]) = Inl TypeError"
    using weather_find_unparseable_fails [of "JObj [(''features'', JArr ?obs)]" noon ?obs] f ts bad
    by blast
  show ?thesis using 1 2 mixed_obs_facts by simp
qed

section \<open>Filtering by time range\<close>

lemma timerange_loop_filter:
  assumes "\<forall>k \<in> set ks. \<exists>r. map_of D k = Some r \<and> start_time r \<noteq> None"
  shows "timerange_loop lo hi (JObj D) ks acc =
           Inr (acc @ map (\<lambda>k. the (map_of D k))
                        (filter (\<lambda>k. in_range lo hi (the (map_of D k))) ks))"
  using assms
proof (induction ks arbitrary: acc)
  case Nil
  then show ?case by simp
next
  case (Cons k ks)
  from Cons.prems obtain r dt where
    r: "map_of D k = Some r" "start_time r = Some dt" by auto
  then obtain sd where sd: "getitem r ''start_date'' = Inr sd" "ts_parse sd = Some dt"
    by (auto simp: start_time_def split: sum.splits)
  have rest: "\<forall>k \<in> set ks. \<exists>r. map_of D k = Some r \<and> start_time r \<noteq> None"
    using Cons.prems by simp
  have inr: "in_range lo hi r = (dt_le lo dt \<and> dt_le dt hi)"
    using r by (simp add: in_range_def)
  show ?case using r sd inr Cons.IH [OF rest] by simp
qed

lemma dt_le_not_less: "dt_le lo hi = (\<not> dt_less hi lo)"
  by (auto simp: dt_le_def dt_less_def)

lemma map_of_in_keys: "k \<in> fst ` set D \<Longrightarrow> \<exists>r. map_of D k = Some r \<and> r \<in> snd ` set D"
  by (induction D) (auto simp: image_iff)

text \<open>
  C1: when both bounds parse, \<open>lo \<le> hi\<close>, the leaderboard file holds a dict and every
  record of it has a \<^verbatim>\<open>start_date\<close> that parses, \<open>leaders_timerange\<close> returns the records
  whose parsed \<^verbatim>\<open>start_date\<close> lies in the closed range from \<open>lo\<close> to \<open>hi\<close>, one for each
  such key and no other, in ascending order of the keys (strings compared character by
  character). When a bound does not parse or \<open>hi < lo\<close>, it fails with \<open>InvalidUsage\<close>,
  status 400, and returns no records.
\<close>

theorem leaders_timerange_correct:
  "(ts_parse (JStr ts1) = Some lo \<and> ts_parse (JStr ts2) = Some hi \<and> dt_le lo hi
      \<and> fs leaderboard_file = Some (JsonText (JObj D)) \<and> distinct (map fst D)
      \<and> (\<forall>r \<in> snd ` set D. start_time r \<noteq> None)
     \<longrightarrow> (\<exists>ks rs. sorted ks \<and> distinct ks
           \<and> set ks = {k \<in> fst ` set D. \<exists>r. map_of D k = Some r \<and> in_range lo hi r}
           \<and> leaders_timerange fs ts1 ts2 = Inr rs
           \<and> list_all2 (\<lambda>k r. map_of D k = Some r) ks rs))
   \<and> (ts_parse (JStr ts1) = None \<or> ts_parse (JStr ts2) = None
        \<or> (\<exists>lo hi. ts_parse (JStr ts1) = Some lo \<and> ts_parse (JStr ts2) = Some hi \<and> dt_less hi lo)
     \<longrightarrow> leaders_timerange fs ts1 ts2 = Inl (InvalidUsage ''Error parsing timestamp parameters'' 400))"
proof (intro conjI impI)
  assume h: "ts_parse (JStr ts1) = Some lo \<and> ts_parse (JStr ts2) = Some hi \<and> dt_le lo hi
      \<and> fs leaderboard_file = Some (JsonText (JObj D)) \<and> distinct (map fst D)
      \<and> (\<forall>r \<in> snd ` set D. start_time r \<noteq> None)"
  let ?P = "\<lambda>k. in_range lo hi (the (map_of D k))"
  let ?all = "sort (map fst D)"
  let ?ks = "filter ?P ?all"
  let ?rs = "map (\<lambda>k. the (map_of D k)) ?ks"
  have keys: "\<forall>k \<in> set ?all. \<exists>r. map_of D k = Some r \<and> start_time r \<noteq> None"
  proof
    fix k assume "k \<in> set ?all"
    then have "k \<in> fst ` set D" by simp
    from map_of_in_keys [OF this] h
    show "\<exists>r. map_of D k = Some r \<and> start_time r \<noteq> None" by blast
  qed
  have run: "leaders_timerange fs ts1 ts2 = Inr ?rs"
    using h timerange_loop_filter [OF keys, of lo hi "[]"]
    by (simp add: leaders_timerange_def dt_le_not_less read_json_dict_def json_load_def
        filter_events_def)
  have 1: "sorted ?ks" by (simp add: sorted_wrt_filter)
  have 2: "distinct ?ks" using h by simp
  have 3: "set ?ks = {k \<in> fst ` set D. \<exists>r. map_of D k = Some r \<and> in_range lo hi r}"
  proof -
    have "?P k = (\<exists>r. map_of D k = Some r \<and> in_range lo hi r)" if "k \<in> fst ` set D" for k
      using map_of_in_keys [OF that] by auto
    then show ?thesis by auto
  qed
  have 4: "list_all2 (\<lambda>k r. map_of D k = Some r) ?ks ?rs"
  proof -
    have "map_of D k = Some (the (map_of D k))" if "k \<in> set ?ks" for k
    proof -
      from that have "k \<in> fst ` set D" by simp
      from map_of_in_keys [OF this] show ?thesis by auto
    qed
    then show ?thesis unfolding list.rel_map list_all2_same by blast
  qed
  have all: "sorted ?ks \<and> distinct ?ks
           \<and> set ?ks = {k \<in> fst ` set D. \<exists>r. map_of D k = Some r \<and> in_range lo hi r}
           \<and> leaders_timerange fs ts1 ts2 = Inr ?rs
           \<and> list_all2 (\<lambda>k r. map_of D k = Some r) ?ks ?rs"
    using 1 2 3 run 4 by simp
  show "\<exists>ks rs. sorted ks \<and> distinct ks
           \<and> set ks = {k \<in> fst ` set D. \<exists>r. map_of D k = Some r \<and> in_range lo hi r}
           \<and> leaders_timerange fs ts1 ts2 = Inr rs
           \<and> list_all2 (\<lambda>k r. map_of D k = Some r) ks rs"
    apply (rule exI [of _ ?ks])
    apply (rule exI [of _ ?rs])
    apply (rule all)
    done
next
  assume "ts_parse (JStr ts1) = None \<or> ts_parse (JStr ts2) = None
        \<or> (\<exists>lo hi. ts_parse (JStr ts1) = Some lo \<and> ts_parse (JStr ts2) = Some hi \<and> dt_less hi lo)"
  then show "leaders_timerange fs ts1 ts2 = Inl (InvalidUsage ''Error parsing timestamp parameters'' 400)"
    by (auto simp: leaders_timerange_def timerange_error_def split: option.splits)
qed

lemma board_file:
  "board leaderboard_file =
     Some (JsonText (JObj [(''2024-01-02T00:00:00+bob+'', bob), (''2024-01-01T00:00:00Z+alice+1'', alice1)]))"
  by (simp add: board_def leaderboard_file_def)

lemma board_query:
  "ts_parse (JStr ''2023-12-31T00:00:00Z'') = Some dec31
   \<and> ts_parse (JStr ''2024-01-01T12:00:00'') = Some noon
   \<and> dt_le dec31 noon \<and> dt_less dec31 noon
   \<and> list_all (\<lambda>r. start_time r \<noteq> None) [bob, alice1]
   \<and> leaders_timerange board ''2023-12-31T00:00:00Z'' ''2024-01-01T12:00:00'' = Inr [alice1]"
  by code_simp

theorem leaders_timerange_correct_witness:
  "ts_parse (JStr ''2023-12-31T00:00:00Z'') = Some dec31
   \<and> ts_parse (JStr ''2024-01-01T12:00:00'') = Some noon
   \<and> dt_le dec31 noon
   \<and> board leaderboard_file =
       Some (JsonText (JObj [(''2024-01-02T00:00:00+bob+'', bob), (''2024-01-01T00:00:00Z+alice+1'', alice1)]))
   \<and> list_all (\<lambda>r. start_time r \<noteq> None) [bob, alice1]
   \<and> leaders_timerange board ''2023-12-31T00:00:00Z'' ''2024-01-01T12:00:00'' = Inr [alice1]
   \<and> (\<exists>ks rs. sorted ks \<and> distinct ks
         \<and> set ks = {k \<in> fst ` set [(''2024-01-02T00:00:00+bob+'', bob), (''2024-01-01T00:00:00Z+alice+1'', alice1)].
                      \<exists>r. map_of [(''2024-01-02T00:00:00+bob+'', bob), (''2024-01-01T00:00:00Z+alice+1'', alice1)] k = Some r
                          \<and> in_range dec31 noon r}
         \<and> leaders_timerange board ''2023-12-31T00:00:00Z'' ''2024-01-01T12:00:00'' = Inr rs
         \<and> list_all2 (\<lambda>k r. map_of [(''2024-01-02T00:00:00+bob+'', bob), (''2024-01-01T00:00:00Z+alice+1'', alice1)] k = Some r) ks rs)
   \<and> leaders_timerange board ''2024-01-01T12:00:00'' ''2023-12-31T00:00:00Z''
       = Inl (InvalidUsage ''Error parsing timestamp parameters'' 400)"
proof -
  let ?D = "[(''2024-01-02T00:00:00+bob+'', bob), (''2024-01-01T00:00:00Z+alice+1'', alice1)]"
  have d: "distinct (map fst ?D)" by simp
  have p: "\<forall>r \<in> snd ` set ?D. start_time r \<noteq> None" using board_query by simp
  note fwd = leaders_timerange_correct [of "''2023-12-31T00:00:00Z''" dec31 "''2024-01-01T12:00:00''" noon
      board ?D]
  note bwd = leaders_timerange_correct [of "''2024-01-01T12:00:00''" noon "''2023-12-31T00:00:00Z''" dec31
      board ?D]
  have ex: "\<exists>ks rs. sorted ks \<and> distinct ks
         \<and> set ks = {k \<in> fst ` set ?D. \<exists>r. map_of ?D k = Some r \<and> in_range dec31 noon r}
         \<and> leaders_timerange board ''2023-12-31T00:00:00Z'' ''2024-01-01T12:00:00'' = Inr rs
         \<and> list_all2 (\<lambda>k r. map_of ?D k = Some r) ks rs"
    using fwd board_query board_file d p by blast
  have err: "leaders_timerange board ''2024-01-01T12:00:00'' ''2023-12-31T00:00:00Z''
       = Inl (InvalidUsage ''Error parsing timestamp parameters'' 400)"
    using bwd board_query by blast
  show ?thesis using board_query board_file ex err by blast
qed

section \<open>The zone suffix does not change the parsed value\<close>

lemma match_classes_extend:
  "inert_class c alt \<Longrightarrow>
     match_classes alt (s @ c # t) = map_option (\<lambda>(m, r). (m, r @ c # t)) (match_classes alt s)"
proof (induction alt arbitrary: s)
  case Nil
  then show ?case by simp
next
  case (Cons cl cls)
  then have c: "c \<notin> set cl" and rest: "inert_class c cls"
    by (simp_all add: inert_class_def)
  show ?case
  proof (cases s)
    case Nil
    then show ?thesis using c by simp
  next
    case (Cons x xs)
    then show ?thesis using Cons.IH [OF rest, of xs]
      by (cases "match_classes cls xs") (auto simp: map_option_case split: option.splits)
  qed
qed

lemma match_classes_consumed:
  "match_classes alt s = Some (m, r) \<Longrightarrow> inert_class c alt \<Longrightarrow> s = m @ r \<and> c \<notin> set m"
proof (induction alt arbitrary: s m)
  case Nil
  then show ?case by simp
next
  case (Cons cl cls)
  from Cons.prems(2) have c: "c \<notin> set cl" and rest: "inert_class c cls"
    by (simp_all add: inert_class_def)
  from Cons.prems(1) obtain x xs m' where
    s: "s = x # xs" and x: "x \<in> set cl" and m: "m = x # m'" and
    sub: "match_classes cls xs = Some (m', r)"
    by (cases s) (auto split: if_splits)
  from Cons.IH [OF sub rest] have "xs = m' @ r \<and> c \<notin> set m'" .
  then show ?case using s m x c by auto
qed

lemma map_filter_extend:
  assumes "list_all (inert_class c) alts"
  shows "List.map_filter (\<lambda>alt. match_classes alt (s @ c # t)) alts =
           map (\<lambda>(m, r). (m, r @ c # t)) (List.map_filter (\<lambda>alt. match_classes alt s) alts)"
  using assms
proof (induction alts)
  case Nil
  then show ?case by (simp add: List.map_filter_simps)
next
  case (Cons alt alts)
  then have a: "inert_class c alt" and rest: "list_all (inert_class c) alts" by simp_all
  show ?case
    using match_classes_extend [OF a, of s t] Cons.IH [OF rest]
    by (cases "match_classes alt s") (auto simp: List.map_filter_simps)
qed

lemma match_items_extend:
  "inert c its \<Longrightarrow>
     match_items its (s @ c # t) = map (\<lambda>(g, r). (g, r @ c # t)) (match_items its s)"
proof (induction its arbitrary: s)
  case Nil
  then show ?case by simp
next
  case (Cons i its)
  then have i: "inert_item c i" and rest: "inert c its" by (simp_all add: inert_def)
  note IH = Cons.IH [OF rest]
  show ?case
  proof (cases i)
    case (Lit l)
    then have l: "\<not> lit_match l c" using i by (simp add: inert_item_def)
    show ?thesis
    proof (cases s)
      case Nil
      then show ?thesis using Lit l by simp
    next
      case (Cons x xs)
      then show ?thesis using Lit IH [of xs] by simp
    qed
  next
    case (Dir d)
    show ?thesis
    proof (cases "directive_regex d")
      case None
      then show ?thesis using Dir by simp
    next
      case (Some alts)
      then have a: "list_all (inert_class c) alts" using i Dir by (simp add: inert_item_def)
      have "match_items (Dir d # its) (s @ c # t) =
          concat (map (\<lambda>(m, r). map (\<lambda>(g, r'). ((d, m) # g, r')) (match_items its r))
                      (map (\<lambda>(m, r). (m, r @ c # t))
                           (List.map_filter (\<lambda>alt. match_classes alt s) alts)))"
        using Some map_filter_extend [OF a, of s t] by simp
      also have "\<dots> =
          concat (map (\<lambda>(m, r). map (\<lambda>(g, r'). ((d, m) # g, r' @ c # t)) (match_items its r))
                      (List.map_filter (\<lambda>alt. match_classes alt s) alts))"
        by (simp add: IH comp_def case_prod_unfold)
      also have "\<dots> = map (\<lambda>(g, r). (g, r @ c # t)) (match_items (Dir d # its) s)"
        using Some by (simp add: map_concat comp_def case_prod_unfold)
      finally show ?thesis using Dir by simp
    qed
  qed
qed

lemma map_filter_consumed:
  assumes "(m, r) \<in> set (List.map_filter (\<lambda>alt. match_classes alt s) alts)"
    and "list_all (inert_class c) alts"
  shows "s = m @ r \<and> c \<notin> set m"
proof -
  from assms(1) obtain alt where "alt \<in> set alts" "match_classes alt s = Some (m, r)"
    by (auto simp: List.map_filter_def)
  then show ?thesis using assms(2) match_classes_consumed [of alt s m r c]
    by (auto simp: list_all_iff)
qed

lemma match_items_consumed:
  "(g, r) \<in> set (match_items its s) \<Longrightarrow> inert c its \<Longrightarrow> \<exists>m. s = m @ r \<and> c \<notin> set m"
proof (induction its arbitrary: s g)
  case Nil
  then show ?case by simp
next
  case (Cons i its)
  from Cons.prems(2) have i: "inert_item c i" and rest: "inert c its" by (simp_all add: inert_def)
  show ?case
  proof (cases i)
    case (Lit l)
    then have l: "\<not> lit_match l c" using i by (simp add: inert_item_def)
    from Cons.prems(1) Lit obtain x xs where s: "s = x # xs" and x: "lit_match l x"
      and sub: "(g, r) \<in> set (match_items its xs)"
      by (cases s) (auto split: if_splits)
    from Cons.IH [OF sub rest] obtain m where "xs = m @ r" "c \<notin> set m" by auto
    moreover have "x \<noteq> c" using x l by auto
    ultimately have "s = (x # m) @ r \<and> c \<notin> set (x # m)" using s by simp
    then show ?thesis by blast
  next
    case (Dir d)
    from Cons.prems(1) Dir obtain alts m1 r1 g1 where
      alts: "directive_regex d = Some alts" and
      first: "(m1, r1) \<in> set (List.map_filter (\<lambda>alt. match_classes alt s) alts)" and
      sub: "(g1, r) \<in> set (match_items its r1)"
      by (cases "directive_regex d") auto
    have a: "list_all (inert_class c) alts" using i Dir alts by (simp add: inert_item_def)
    from map_filter_consumed [OF first a] have s: "s = m1 @ r1" "c \<notin> set m1" by auto
    from Cons.IH [OF sub rest] obtain m where "r1 = m @ r" "c \<notin> set m" by auto
    then have "s = (m1 @ m) @ r \<and> c \<notin> set (m1 @ m)" using s by simp
    then show ?thesis by blast
  qed
qed

lemma match_items_append:
  "match_items (xs @ ys) s =
     concat (map (\<lambda>(g, r). map (\<lambda>(g', r'). (g @ g', r')) (match_items ys r)) (match_items xs s))"
proof (induction xs arbitrary: s)
  case Nil
  then show ?case by (simp add: case_prod_unfold)
next
  case (Cons i xs)
  show ?case
  proof (cases i)
    case (Lit l)
    then show ?thesis using Cons.IH by (cases s) auto
  next
    case (Dir d)
    show ?thesis
    proof (cases "directive_regex d")
      case None
      then show ?thesis using Dir by simp
    next
      case (Some alts)
      have step: "concat (map (\<lambda>(m, r). map (\<lambda>(g, r'). ((d, m) # g, r')) (match_items (xs @ ys) r)) L) =
          concat (map (\<lambda>(g, r). map (\<lambda>(g', r'). (g @ g', r')) (match_items ys r))
            (concat (map (\<lambda>(m, r). map (\<lambda>(g, r'). ((d, m) # g, r')) (match_items xs r)) L)))"
        for L
        by (induction L) (auto simp: Cons.IH map_concat comp_def case_prod_unfold)
      show ?thesis
        using Dir Some step [of "List.map_filter (\<lambda>alt. match_classes alt s) alts"]
        by (simp del: directive_regex.simps)
    qed
  qed
qed

lemma compile_formats:
  "compile_format ''%Y-%m-%dT%H:%M:%S'' = Some datetime_items"
  "compile_format ''%Y-%m-%dT%H:%M:%SZ'' = Some (datetime_items @ [Lit CHR ''Z''])"
  "compile_format ''%Y-%m-%dT%H:%M:%S+00:00'' = Some (datetime_items @ map Lit ''+00:00'')"
  by (simp_all add: datetime_items_def)

lemma formats_known:
  "all_directives_known datetime_items"
  "all_directives_known (datetime_items @ [Lit CHR ''Z''])"
  "all_directives_known (datetime_items @ map Lit ''+00:00'')"
  by (simp_all add: datetime_items_def all_directives_known_def)

lemma lit_match_plus: "lit_match CHR ''+'' x = (x = CHR ''+'')"
  by (auto simp: lit_match_def uppercase_def lowercase_def)

lemma lit_match_Z: "lit_match CHR ''Z'' x = (x = CHR ''Z'' \<or> x = CHR ''z'')"
  by (auto simp: lit_match_def uppercase_def lowercase_def)

lemma inert_suffix_chars:
  "inert CHR ''+'' datetime_items" "inert CHR ''Z'' datetime_items" "inert CHR ''z'' datetime_items"
  by (simp_all add: inert_def inert_item_def inert_class_def datetime_items_def digit_def
      nonzero_def lit_match_def uppercase_def lowercase_def)

lemma lit_fails:
  "\<forall>c \<in> set u. \<not> lit_match l c \<Longrightarrow> match_items (Lit l # others) u = []"
  by (cases u) auto

lemma strptime_items:
  assumes "compile_format fmt = Some its" and "all_directives_known its"
  shows "strptime (JStr s) fmt =
           (case match_items its s of
              [] \<Rightarrow> Inl ValueError
            | (g, r) # rest \<Rightarrow> if r \<noteq> [] then Inl ValueError else datetime_of_groups g)"
  using assms by (simp add: strptime_def)

lemma base_match:
  assumes "strptime (JStr s) ''%Y-%m-%dT%H:%M:%S'' = Inr d"
  shows "\<exists>g rest. match_items datetime_items s = (g, []) # rest \<and> datetime_of_groups g = Inr d"
  using assms
  unfolding strptime_items [OF compile_formats(1) formats_known(1)]
  by (auto split: list.splits if_splits)

lemma rests_without:
  assumes head: "match_items datetime_items s = (g, []) # rest"
    and c: "inert c datetime_items"
    and r: "(g', r') \<in> set (match_items datetime_items s)"
  shows "c \<notin> set r'"
proof -
  have "(g, []) \<in> set (match_items datetime_items s)" using head by simp
  from match_items_consumed [OF this c] have "c \<notin> set s" by auto
  moreover from match_items_consumed [OF r c] obtain m where "s = m @ r'" by auto
  ultimately show ?thesis by auto
qed

lemma append_fails:
  assumes "\<forall>(g', r') \<in> set (match_items xs u). match_items ys r' = []"
  shows "match_items (xs @ ys) u = []"
  unfolding match_items_append using assms by (auto simp: case_prod_unfold)

lemma append_head:
  assumes "match_items xs u = (g, r0) # rest" and "match_items ys r0 = (g', r1) # rest'"
  shows "\<exists>others. match_items (xs @ ys) u = (g @ g', r1) # others"
  unfolding match_items_append using assms by simp

lemma plus_format_on_base:
  assumes head: "match_items datetime_items s = (g, []) # rest"
  shows "match_items (datetime_items @ map Lit ''+00:00'') s = []"
proof (rule append_fails, clarify)
  fix g' r' assume r: "(g', r') \<in> set (match_items datetime_items s)"
  have "CHR ''+'' \<notin> set r'" by (rule rests_without [OF head inert_suffix_chars(1) r])
  then have "\<forall>c \<in> set r'. \<not> lit_match CHR ''+'' c" by (auto simp: lit_match_plus)
  then show "match_items (map Lit ''+00:00'') r' = []" by (cases r') auto
qed

lemma Z_format_on_base:
  assumes head: "match_items datetime_items s = (g, []) # rest"
  shows "match_items (datetime_items @ [Lit CHR ''Z'']) s = []"
proof (rule append_fails, clarify)
  fix g' r' assume r: "(g', r') \<in> set (match_items datetime_items s)"
  have "CHR ''Z'' \<notin> set r'" "CHR ''z'' \<notin> set r'"
    by (rule rests_without [OF head inert_suffix_chars(2) r],
        rule rests_without [OF head inert_suffix_chars(3) r])
  then have "\<forall>c \<in> set r'. \<not> lit_match CHR ''Z'' c" by (auto simp: lit_match_Z)
  then show "match_items [Lit CHR ''Z''] r' = []" by (rule lit_fails)
qed

lemma plus_format_on_Z:
  assumes head: "match_items datetime_items s = (g, []) # rest"
  shows "match_items (datetime_items @ map Lit ''+00:00'') (s @ ''Z'') = []"
proof (rule append_fails, clarify)
  fix g' r' assume "(g', r') \<in> set (match_items datetime_items (s @ ''Z''))"
  then obtain r0 where r': "r' = r0 @ ''Z''" and r: "(g', r0) \<in> set (match_items datetime_items s)"
    unfolding match_items_extend [OF inert_suffix_chars(2)] by auto
  have "CHR ''+'' \<notin> set r0" by (rule rests_without [OF head inert_suffix_chars(1) r])
  then have "\<forall>c \<in> set r'. \<not> lit_match CHR ''+'' c" using r' by (auto simp: lit_match_plus)
  then show "match_items (map Lit ''+00:00'') r' = []" by (cases r') auto
qed

lemma Z_format_on_Z:
  assumes head: "match_items datetime_items s = (g, []) # rest"
  shows "\<exists>others. match_items (datetime_items @ [Lit CHR ''Z'']) (s @ ''Z'') = (g, []) # others"
proof -
  have 1: "match_items datetime_items (s @ ''Z'') =
      (g, ''Z'') # map (\<lambda>(g, r). (g, r @ ''Z'')) rest"
    unfolding match_items_extend [OF inert_suffix_chars(2)] using head by simp
  have 2: "match_items [Lit CHR ''Z''] ''Z'' = ([], []) # []"
    by (simp add: lit_match_Z)
  from append_head [OF 1 2] show ?thesis by simp
qed

lemma plus_format_on_plus:
  assumes head: "match_items datetime_items s = (g, []) # rest"
  shows "\<exists>others. match_items (datetime_items @ map Lit ''+00:00'') (s @ ''+00:00'') = (g, []) # others"
proof -
  have 1: "match_items datetime_items (s @ ''+00:00'') =
      (g, ''+00:00'') # map (\<lambda>(g, r). (g, r @ ''+00:00'')) rest"
    unfolding match_items_extend [OF inert_suffix_chars(1)] using head by simp
  have 2: "match_items (map Lit ''+00:00'') ''+00:00'' = ([], []) # []"
    by (simp add: lit_match_def)
  from append_head [OF 1 2] show ?thesis by simp
qed

lemma ts_parse_variants:
  assumes "strptime (JStr s) ''%Y-%m-%dT%H:%M:%S'' = Inr d"
  shows "ts_parse (JStr s) = Some d" "ts_parse (JStr (s @ ''Z'')) = Some d"
    "ts_parse (JStr (s @ ''+00:00'')) = Some d"
proof -
  from base_match [OF assms] obtain g rest where
    head: "match_items datetime_items s = (g, []) # rest" and d: "datetime_of_groups g = Inr d"
    by auto
  note a = strptime_items [OF compile_formats(3) formats_known(3)]
  note b = strptime_items [OF compile_formats(2) formats_known(2)]
  have a_s: "strptime (JStr s) ''%Y-%m-%dT%H:%M:%S+00:00'' = Inl ValueError"
    unfolding a plus_format_on_base [OF head] by simp
  have b_s: "strptime (JStr s) ''%Y-%m-%dT%H:%M:%SZ'' = Inl ValueError"
    unfolding b Z_format_on_base [OF head] by simp
  show "ts_parse (JStr s) = Some d"
    using a_s b_s assms by (simp add: ts_parse_def ts_formats_def)
  have a_Z: "strptime (JStr (s @ ''Z'')) ''%Y-%m-%dT%H:%M:%S+00:00'' = Inl ValueError"
    unfolding a plus_format_on_Z [OF head] by simp
  from Z_format_on_Z [OF head] obtain others where
    "match_items (datetime_items @ [Lit CHR ''Z'']) (s @ ''Z'') = (g, []) # others" ..
  then have b_Z: "strptime (JStr (s @ ''Z'')) ''%Y-%m-%dT%H:%M:%SZ'' = Inr d"
    unfolding b using d by simp
  show "ts_parse (JStr (s @ ''Z'')) = Some d"
    using a_Z b_Z by (simp add: ts_parse_def ts_formats_def)
  from plus_format_on_plus [OF head] obtain others where
    "match_items (datetime_items @ map Lit ''+00:00'') (s @ ''+00:00'') = (g, []) # others" ..
  then have a_p: "strptime (JStr (s @ ''+00:00'')) ''%Y-%m-%dT%H:%M:%S+00:00'' = Inr d"
    unfolding a using d by simp
  show "ts_parse (JStr (s @ ''+00:00'')) = Some d"
    using a_p by (simp add: ts_parse_def ts_formats_def)
qed

text \<open>
  C10: when a string parses under the format without zone suffix, the string itself,
  the string followed by \<^verbatim>\<open>Z\<close> and the string followed by \<^verbatim>\<open>+00:00\<close> all parse, through
  \<open>ts_parse\<close>, to that same naive date-time. Hence a record's \<^verbatim>\<open>start_date\<close>, an
  observation's \<^verbatim>\<open>timestamp\<close> and the bounds of the endpoints give the same results
  whichever of the three variants is written.
\<close>

theorem zone_suffix_variants_agree:
  "strptime (JStr s) ''%Y-%m-%dT%H:%M:%S'' = Inr d \<longrightarrow>
     (\<forall>v \<in> {s, s @ ''Z'', s @ ''+00:00''}.
        ts_parse (JStr v) = Some d
        \<and> start_time (JObj ((''start_date'', JStr v) # kvs)) = Some d
        \<and> obs_time (JObj [(''properties'', JObj ((''timestamp'', JStr v) # kvs'))]) = Some d
        \<and> leaders_timerange fs v ts2 = leaders_timerange fs s ts2
        \<and> leaders_timerange fs ts1 v = leaders_timerange fs ts1 s
        \<and> weather_at_time fs v = weather_at_time fs s)"
proof
  assume base: "strptime (JStr s) ''%Y-%m-%dT%H:%M:%S'' = Inr d"
  have same: "ts_parse (JStr v) = Some d" if "v \<in> {s, s @ ''Z'', s @ ''+00:00''}" for v
    using that ts_parse_variants [OF base] by auto
  show "\<forall>v \<in> {s, s @ ''Z'', s @ ''+00:00''}.
        ts_parse (JStr v) = Some d
        \<and> start_time (JObj ((''start_date'', JStr v) # kvs)) = Some d
        \<and> obs_time (JObj [(''properties'', JObj ((''timestamp'', JStr v) # kvs'))]) = Some d
        \<and> leaders_timerange fs v ts2 = leaders_timerange fs s ts2
        \<and> leaders_timerange fs ts1 v = leaders_timerange fs ts1 s
        \<and> weather_at_time fs v = weather_at_time fs s"
  proof
    fix v assume v: "v \<in> {s, s @ ''Z'', s @ ''+00:00''}"
    have p: "ts_parse (JStr v) = Some d" "ts_parse (JStr s) = Some d"
      using same [OF v] same [of s] by simp_all
    show "ts_parse (JStr v) = Some d
        \<and> start_time (JObj ((''start_date'', JStr v) # kvs)) = Some d
        \<and> obs_time (JObj [(''properties'', JObj ((''timestamp'', JStr v) # kvs'))]) = Some d
        \<and> leaders_timerange fs v ts2 = leaders_timerange fs s ts2
        \<and> leaders_timerange fs ts1 v = leaders_timerange fs ts1 s
        \<and> weather_at_time fs v = weather_at_time fs s"
      using p
      by (simp add: start_time_def obs_time_def obs_timestamp_def leaders_timerange_def
          weather_at_time_def split: option.splits)
  qed
qed

lemma base_jan1: "strptime (JStr ''2024-01-01T00:00:00'') ''%Y-%m-%dT%H:%M:%S'' = Inr jan1"
  by code_simp

theorem zone_suffix_variants_agree_witness:
  "strptime (JStr ''2024-01-01T00:00:00'') ''%Y-%m-%dT%H:%M:%S'' = Inr jan1
   \<and> ts_parse (JStr ''2024-01-01T00:00:00'') = Some jan1
   \<and> ts_parse (JStr ''2024-01-01T00:00:00Z'') = Some jan1
   \<and> ts_parse (JStr ''2024-01-01T00:00:00+00:00'') = Some jan1
   \<and> start_time (JObj [(''start_date'', JStr ''2024-01-01T00:00:00Z''), (''athlete_name'', JStr ''alice'')])
       = Some jan1"
  using zone_suffix_variants_agree [of "''2024-01-01T00:00:00''" jan1
      "[(''athlete_name'', JStr ''alice'')]" "[]" Map.empty "[]" "[]"] base_jan1
  by simp

section \<open>What the codec accepts\<close>

lemma match_classes_split:
  "match_classes alt s = Some (m, r) \<Longrightarrow> s = m @ r \<and> match_classes alt m = Some (m, [])"
proof (induction alt arbitrary: s m)
  case Nil
  then show ?case by simp
next
  case (Cons cl cls)
  from Cons.prems obtain x xs m' where
    s: "s = x # xs" and x: "x \<in> set cl" and m: "m = x # m'" and
    sub: "match_classes cls xs = Some (m', r)"
    by (cases s) (auto split: if_splits)
  from Cons.IH [OF sub] show ?case using s x m by simp
qed

lemma match_classes_app:
  "match_classes alt f = Some (f, []) \<Longrightarrow> match_classes alt (f @ t) = Some (f, t)"
proof (induction alt arbitrary: f)
  case Nil
  then show ?case by simp
next
  case (Cons cl cls)
  from Cons.prems obtain x xs where
    f: "f = x # xs" and x: "x \<in> set cl" and sub: "match_classes cls xs = Some (xs, [])"
    by (cases f) (auto split: if_splits)
  from Cons.IH [OF sub] show ?case using f x by simp
qed

lemma in_match_items_Lit:
  "(g, r) \<in> set (match_items (Lit c # its) s) =
     (\<exists>x xs. s = x # xs \<and> lit_match c x \<and> (g, r) \<in> set (match_items its xs))"
  by (cases s) auto

lemma in_match_items_Dir:
  "(g, r) \<in> set (match_items (Dir c # its) s) =
     (\<exists>f r1 g1. s = f @ r1 \<and> field_of c f \<and> g = (c, f) # g1 \<and> (g1, r) \<in> set (match_items its r1))"
proof (cases "directive_regex c")
  case None
  then show ?thesis by (simp add: field_of_def del: directive_regex.simps)
next
  case (Some alts)
  show ?thesis
  proof
    assume "(g, r) \<in> set (match_items (Dir c # its) s)"
    then obtain alt m r1 g1 where alt: "alt \<in> set alts" and
      m: "match_classes alt s = Some (m, r1)" and g: "g = (c, m) # g1" and
      sub: "(g1, r) \<in> set (match_items its r1)"
      using Some by (auto simp: List.map_filter_def simp del: directive_regex.simps)
    from match_classes_split [OF m] alt have "s = m @ r1" "field_of c m"
      using Some by (auto simp: field_of_def list_ex_iff simp del: directive_regex.simps)
    then show "\<exists>f r1 g1. s = f @ r1 \<and> field_of c f \<and> g = (c, f) # g1 \<and> (g1, r) \<in> set (match_items its r1)"
      using g sub by blast
  next
    assume "\<exists>f r1 g1. s = f @ r1 \<and> field_of c f \<and> g = (c, f) # g1 \<and> (g1, r) \<in> set (match_items its r1)"
    then obtain f r1 g1 where s: "s = f @ r1" and f: "field_of c f" and g: "g = (c, f) # g1"
      and sub: "(g1, r) \<in> set (match_items its r1)" by blast
    from f Some obtain alt where alt: "alt \<in> set alts" and m: "match_classes alt f = Some (f, [])"
      by (auto simp: field_of_def list_ex_iff simp del: directive_regex.simps)
    from match_classes_app [OF m] have "match_classes alt s = Some (f, r1)" using s by simp
    then show "(g, r) \<in> set (match_items (Dir c # its) s)"
      using Some alt g sub by (force simp: List.map_filter_def simp del: directive_regex.simps)
  qed
qed

lemma directive_inert:
  "directive_regex c = Some alts \<Longrightarrow> x \<in> set ''-Tt:+Zz'' \<Longrightarrow> list_all (inert_class x) alts"
  by (auto simp: inert_class_def digit_def nonzero_def split: if_splits)

lemma field_no_sep:
  assumes "field_of c f" and "x \<in> set ''-Tt:+Zz''"
  shows "x \<notin> set f"
proof -
  from assms(1) obtain alts alt where alts: "directive_regex c = Some alts" and
    alt: "alt \<in> set alts" and m: "match_classes alt f = Some (f, [])"
    by (auto simp: field_of_def list_ex_iff simp del: directive_regex.simps split: option.splits)
  from directive_inert [OF alts assms(2)] alt have "inert_class x alt" by (simp add: list_all_iff)
  from match_classes_consumed [OF m this] show ?thesis by simp
qed

lemma lit_match_sep:
  "lit_match l x \<Longrightarrow> l \<in> set ''-T:'' \<Longrightarrow> x \<in> set ''-Tt:+Zz''"
  by (auto simp: lit_match_def uppercase_def lowercase_def)

lemma concat_head:
  "x \<in> set L \<Longrightarrow> F x = y # ys \<Longrightarrow> \<forall>x' \<in> set L. F x' = [] \<or> F x' = F x \<Longrightarrow>
     \<exists>rest. concat (map F L) = y # rest"
proof (induction L)
  case Nil
  then show ?case by simp
next
  case (Cons a L)
  show ?case
  proof (cases "F a = []")
    case True
    then have "x \<in> set L" using Cons.prems by auto
    from Cons.IH [OF this Cons.prems(2)] Cons.prems(3) True show ?thesis by simp
  next
    case False
    then have "F a = y # ys" using Cons.prems by auto
    then show ?thesis by simp
  qed
qed

lemma split_at_sep:
  assumes "f @ x0 # tail = m @ x # xs" and "\<forall>c \<in> S. c \<notin> set f" and "\<forall>c \<in> S. c \<notin> set m"
    and "x0 \<in> S" and "x \<in> S"
  shows "m = f \<and> x = x0 \<and> xs = tail"
proof -
  from assms(1) consider u where "f = m @ u" "u @ x0 # tail = x # xs"
    | u where "f @ u = m" "x0 # tail = u @ x # xs"
    by (auto simp: append_eq_append_conv2)
  then show ?thesis
  proof cases
    case 1
    then show ?thesis using assms(2,5) by (cases u) auto
  next
    case 2
    then show ?thesis using assms(3,4) by (cases u) auto
  qed
qed

lemma dir_lit_head:
  assumes l: "l \<in> set ''-T:''"
    and x0: "lit_match l x0"
    and field: "field_of c f"
    and cont: "match_items its tail = (g0, r0) # rest0"
  shows "\<exists>rest. match_items (Dir c # Lit l # its) (f @ x0 # tail) = ((c, f) # g0, r0) # rest"
proof -
  let ?S = "set ''-Tt:+Zz''"
  from field obtain alts alt where alts: "directive_regex c = Some alts" and
    alt: "alt \<in> set alts" and m: "match_classes alt f = Some (f, [])"
    by (auto simp: field_of_def list_ex_iff simp del: directive_regex.simps split: option.splits)
  let ?s = "f @ x0 # tail"
  let ?L = "List.map_filter (\<lambda>alt. match_classes alt ?s) alts"
  let ?F = "\<lambda>(m, r). map (\<lambda>(g, r'). ((c, m) # g, r')) (match_items (Lit l # its) r)"
  have x0S: "x0 \<in> ?S" by (rule lit_match_sep [OF x0 l])
  have fS: "\<forall>c \<in> ?S. c \<notin> set f" using field_no_sep [OF field] by blast
  have inL: "(f, x0 # tail) \<in> set ?L"
    using match_classes_app [OF m, of "x0 # tail"] alt by (force simp: List.map_filter_def)
  have Fx: "?F (f, x0 # tail) = ((c, f) # g0, r0) # map (\<lambda>(g, r'). ((c, f) # g, r')) rest0"
    using x0 cont by simp
  have others: "\<forall>p \<in> set ?L. ?F p = [] \<or> ?F p = ?F (f, x0 # tail)"
  proof
    fix p assume p: "p \<in> set ?L"
    obtain m' r' where pr: "p = (m', r')" by (cases p)
    from p pr obtain alt' where alt': "alt' \<in> set alts" and
      m': "match_classes alt' ?s = Some (m', r')"
      by (auto simp: List.map_filter_def)
    have s: "?s = m' @ r'" using match_classes_split [OF m'] by simp
    have mS: "\<forall>c \<in> ?S. c \<notin> set m'"
    proof
      fix x assume "x \<in> ?S"
      from directive_inert [OF alts this] alt' have "inert_class x alt'" by (simp add: list_all_iff)
      from match_classes_consumed [OF m' this] show "x \<notin> set m'" by simp
    qed
    show "?F p = [] \<or> ?F p = ?F (f, x0 # tail)"
    proof (cases "?F p = []")
      case True
      then show ?thesis by simp
    next
      case False
      then obtain x xs where r': "r' = x # xs" and x: "lit_match l x"
        using pr by (cases r') (auto split: if_splits)
      have xS: "x \<in> ?S" by (rule lit_match_sep [OF x l])
      from split_at_sep [OF s [unfolded r'] fS mS x0S xS] have "m' = f \<and> x = x0 \<and> xs = tail" .
      then show ?thesis using pr r' by simp
    qed
  qed
  from concat_head [of "(f, x0 # tail)" ?L ?F, OF inL Fx others]
  show ?thesis using alts by (simp del: directive_regex.simps match_items.simps(2))
qed

lemma match_classes_two:
  "match_classes [c1, c2] f = Some (f, []) = (\<exists>a b. f = [a, b] \<and> a \<in> set c1 \<and> b \<in> set c2)"
proof (cases f)
  case Nil
  then show ?thesis by simp
next
  case (Cons a f')
  then show ?thesis by (cases f') (auto split: if_splits)
qed

lemma match_classes_one:
  "match_classes [c1] f = Some (f, []) = (\<exists>a. f = [a] \<and> a \<in> set c1)"
  by (cases f) (auto split: if_splits)

lemma last_dir_head:
  assumes "field_of CHR ''S'' se"
  shows "\<exists>rest. match_items [Dir CHR ''S''] se = ([(CHR ''S'', se)], []) # rest"
proof -
  from assms consider a b where "se = [a, b]" "a = CHR ''6''" "b \<in> set ''01''"
    | a b where "se = [a, b]" "a \<in> set ''012345''" "b \<in> set digit"
    | a where "se = [a]" "a \<in> set digit"
    by (auto simp: field_of_def match_classes_two match_classes_one)
  then show ?thesis
  proof cases
    case 1
    then show ?thesis by (auto simp: List.map_filter_simps)
  next
    case 2
    then show ?thesis by (auto simp: List.map_filter_simps)
  next
    case 3
    then show ?thesis by (auto simp: List.map_filter_simps)
  qed
qed

lemma base_head:
  assumes "field_of CHR ''Y'' y" "field_of CHR ''m'' mo" "field_of CHR ''d'' da"
    "field_of CHR ''H'' h" "field_of CHR ''M'' mi" "field_of CHR ''S'' se"
    "lit_match CHR ''T'' sep"
  shows "\<exists>rest. match_items datetime_items
            (y @ CHR ''-'' # mo @ CHR ''-'' # da @ sep # h @ CHR '':'' # mi @ CHR '':'' # se) =
          ([(CHR ''Y'', y), (CHR ''m'', mo), (CHR ''d'', da), (CHR ''H'', h), (CHR ''M'', mi),
            (CHR ''S'', se)], []) # rest"
proof -
  have dash: "lit_match CHR ''-'' CHR ''-''" and colon: "lit_match CHR '':'' CHR '':''"
    by (simp_all add: lit_match_def)
  from last_dir_head [OF assms(6)] obtain r6 where
    6: "match_items [Dir CHR ''S''] se = ([(CHR ''S'', se)], []) # r6" ..
  from dir_lit_head [OF _ colon assms(5) 6] obtain r5 where
    5: "match_items [Dir CHR ''M'', Lit CHR '':'', Dir CHR ''S''] (mi @ CHR '':'' # se) =
          ([(CHR ''M'', mi), (CHR ''S'', se)], []) # r5" by auto
  from dir_lit_head [OF _ colon assms(4) 5] obtain r4 where
    4: "match_items [Dir CHR ''H'', Lit CHR '':'', Dir CHR ''M'', Lit CHR '':'', Dir CHR ''S'']
          (h @ CHR '':'' # mi @ CHR '':'' # se) =
          ([(CHR ''H'', h), (CHR ''M'', mi), (CHR ''S'', se)], []) # r4" by auto
  from dir_lit_head [OF _ assms(7) assms(3) 4] obtain r3 where
    3: "match_items [Dir CHR ''d'', Lit CHR ''T'', Dir CHR ''H'', Lit CHR '':'', Dir CHR ''M'',
             Lit CHR '':'', Dir CHR ''S'']
          (da @ sep # h @ CHR '':'' # mi @ CHR '':'' # se) =
          ([(CHR ''d'', da), (CHR ''H'', h), (CHR ''M'', mi), (CHR ''S'', se)], []) # r3" by auto
  from dir_lit_head [OF _ dash assms(2) 3] obtain r2 where
    2: "match_items [Dir CHR ''m'', Lit CHR ''-'', Dir CHR ''d'', Lit CHR ''T'', Dir CHR ''H'',
             Lit CHR '':'', Dir CHR ''M'', Lit CHR '':'', Dir CHR ''S'']
          (mo @ CHR ''-'' # da @ sep # h @ CHR '':'' # mi @ CHR '':'' # se) =
          ([(CHR ''m'', mo), (CHR ''d'', da), (CHR ''H'', h), (CHR ''M'', mi), (CHR ''S'', se)], []) # r2"
    by auto
  from dir_lit_head [OF _ dash assms(1) 2] obtain r1 where
    1: "match_items [Dir CHR ''Y'', Lit CHR ''-'', Dir CHR ''m'', Lit CHR ''-'', Dir CHR ''d'',
             Lit CHR ''T'', Dir CHR ''H'', Lit CHR '':'', Dir CHR ''M'', Lit CHR '':'', Dir CHR ''S'']
          (y @ CHR ''-'' # mo @ CHR ''-'' # da @ sep # h @ CHR '':'' # mi @ CHR '':'' # se) =
          ([(CHR ''Y'', y), (CHR ''m'', mo), (CHR ''d'', da), (CHR ''H'', h), (CHR ''M'', mi),
            (CHR ''S'', se)], []) # r1"
    by auto
  then show ?thesis unfolding datetime_items_def by blast
qed

lemma groups_datetime:
  "datetime_of_groups [(CHR ''Y'', y), (CHR ''m'', mo), (CHR ''d'', da), (CHR ''H'', h),
       (CHR ''M'', mi), (CHR ''S'', se)] = fields_datetime y mo da h mi se"
  by (simp add: datetime_of_groups_def fields_datetime_def group_def)

lemma strptime_base_fields:
  assumes "field_of CHR ''Y'' y" "field_of CHR ''m'' mo" "field_of CHR ''d'' da"
    "field_of CHR ''H'' h" "field_of CHR ''M'' mi" "field_of CHR ''S'' se"
    "lit_match CHR ''T'' sep"
  shows "strptime (JStr (y @ CHR ''-'' # mo @ CHR ''-'' # da @ sep # h @ CHR '':'' # mi @ CHR '':'' # se))
           ''%Y-%m-%dT%H:%M:%S'' = fields_datetime y mo da h mi se"
proof -
  from base_head [OF assms] obtain rest where
    "match_items datetime_items
        (y @ CHR ''-'' # mo @ CHR ''-'' # da @ sep # h @ CHR '':'' # mi @ CHR '':'' # se) =
      ([(CHR ''Y'', y), (CHR ''m'', mo), (CHR ''d'', da), (CHR ''H'', h), (CHR ''M'', mi),
        (CHR ''S'', se)], []) # rest" ..
  then show ?thesis
    unfolding strptime_items [OF compile_formats(1) formats_known(1)]
    by (simp add: groups_datetime)
qed

lemma base_members:
  "(g, r) \<in> set (match_items datetime_items s) =
     (\<exists>y mo da sep h mi se.
        s = y @ CHR ''-'' # mo @ CHR ''-'' # da @ sep # h @ CHR '':'' # mi @ CHR '':'' # se @ r
        \<and> field_of CHR ''Y'' y \<and> field_of CHR ''m'' mo \<and> field_of CHR ''d'' da
        \<and> field_of CHR ''H'' h \<and> field_of CHR ''M'' mi \<and> field_of CHR ''S'' se
        \<and> lit_match CHR ''T'' sep
        \<and> g = [(CHR ''Y'', y), (CHR ''m'', mo), (CHR ''d'', da), (CHR ''H'', h), (CHR ''M'', mi),
            (CHR ''S'', se)])"
  unfolding datetime_items_def in_match_items_Dir in_match_items_Lit
  by (auto simp: lit_match_def uppercase_def lowercase_def)

lemma lits_members:
  "(g, r) \<in> set (match_items (map Lit lits) r1) =
     (g = [] \<and> (\<exists>u. r1 = u @ r \<and> list_all2 lit_match lits u))"
proof (induction lits arbitrary: r1)
  case Nil
  then show ?case by auto
next
  case (Cons l lits)
  show ?case
  proof (cases r1)
    case Nil
    then show ?thesis by simp
  next
    case (Cons x xs)
    then show ?thesis using Cons.IH [of xs]
      by (auto simp: list_all2_Cons1 Cons_eq_append_conv)
  qed
qed

lemma suffix_members:
  "(g, r) \<in> set (match_items (its @ map Lit lits) s) =
     (\<exists>u. (g, u @ r) \<in> set (match_items its s) \<and> list_all2 lit_match lits u)"
proof
  assume "(g, r) \<in> set (match_items (its @ map Lit lits) s)"
  then obtain g1 r1 g' where 1: "(g1, r1) \<in> set (match_items its s)"
    and 2: "(g', r) \<in> set (match_items (map Lit lits) r1)" and g: "g = g1 @ g'"
    unfolding match_items_append by auto
  from 2 obtain u where "g' = []" "r1 = u @ r" "list_all2 lit_match lits u"
    unfolding lits_members by auto
  then show "\<exists>u. (g, u @ r) \<in> set (match_items its s) \<and> list_all2 lit_match lits u"
    using 1 g by auto
next
  assume "\<exists>u. (g, u @ r) \<in> set (match_items its s) \<and> list_all2 lit_match lits u"
  then obtain u where 1: "(g, u @ r) \<in> set (match_items its s)"
    and 2: "list_all2 lit_match lits u" by auto
  from 2 have "([], r) \<in> set (match_items (map Lit lits) (u @ r))"
    unfolding lits_members by auto
  then show "(g, r) \<in> set (match_items (its @ map Lit lits) s)"
    unfolding match_items_append using 1 by force
qed

lemma plus_format_on_z:
  assumes head: "match_items datetime_items s = (g, []) # rest"
  shows "match_items (datetime_items @ map Lit ''+00:00'') (s @ ''z'') = []"
proof (rule append_fails, clarify)
  fix g' r' assume "(g', r') \<in> set (match_items datetime_items (s @ ''z''))"
  then obtain r0 where r': "r' = r0 @ ''z''" and r: "(g', r0) \<in> set (match_items datetime_items s)"
    unfolding match_items_extend [OF inert_suffix_chars(3)] by auto
  have "CHR ''+'' \<notin> set r0" by (rule rests_without [OF head inert_suffix_chars(1) r])
  then have "\<forall>c \<in> set r'. \<not> lit_match CHR ''+'' c" using r' by (auto simp: lit_match_plus)
  then show "match_items (map Lit ''+00:00'') r' = []" by (cases r') auto
qed

lemma Z_format_on_z:
  assumes head: "match_items datetime_items s = (g, []) # rest"
  shows "\<exists>others. match_items (datetime_items @ [Lit CHR ''Z'']) (s @ ''z'') = (g, []) # others"
proof -
  have 1: "match_items datetime_items (s @ ''z'') =
      (g, ''z'') # map (\<lambda>(g, r). (g, r @ ''z'')) rest"
    unfolding match_items_extend [OF inert_suffix_chars(3)] using head by simp
  have 2: "match_items [Lit CHR ''Z''] ''z'' = ([], []) # []"
    by (simp add: lit_match_Z)
  from append_head [OF 1 2] show ?thesis by simp
qed

lemma ts_parse_lower_z:
  assumes "strptime (JStr s) ''%Y-%m-%dT%H:%M:%S'' = Inr d"
  shows "ts_parse (JStr (s @ ''z'')) = Some d"
proof -
  from base_match [OF assms] obtain g rest where
    head: "match_items datetime_items s = (g, []) # rest" and d: "datetime_of_groups g = Inr d"
    by auto
  note a = strptime_items [OF compile_formats(3) formats_known(3)]
  note b = strptime_items [OF compile_formats(2) formats_known(2)]
  have a_z: "strptime (JStr (s @ ''z'')) ''%Y-%m-%dT%H:%M:%S+00:00'' = Inl ValueError"
    unfolding a plus_format_on_z [OF head] by simp
  from Z_format_on_z [OF head] obtain others where
    "match_items (datetime_items @ [Lit CHR ''Z'']) (s @ ''z'') = (g, []) # others" ..
  then have b_z: "strptime (JStr (s @ ''z'')) ''%Y-%m-%dT%H:%M:%SZ'' = Inr d"
    unfolding b using d by simp
  show ?thesis using a_z b_z by (simp add: ts_parse_def ts_formats_def)
qed

text \<open>A successful parse under a format has a complete match.\<close>

lemma strptime_member:
  assumes "compile_format fmt = Some its" and "all_directives_known its"
    and "strptime (JStr s) fmt = Inr d"
  shows "\<exists>g. (g, []) \<in> set (match_items its s) \<and> datetime_of_groups g = Inr d"
  using assms(3) unfolding strptime_items [OF assms(1,2)]
  by (auto split: list.splits if_splits)

lemma parsed_shape:
  assumes "(g, u) \<in> set (match_items datetime_items s)" and "datetime_of_groups g = Inr d"
  shows "accepted s u d"
proof -
  from assms(1) obtain y mo da sep h mi se where
    s: "s = y @ CHR ''-'' # mo @ CHR ''-'' # da @ sep # h @ CHR '':'' # mi @ CHR '':'' # se @ u"
    and f: "field_of CHR ''Y'' y" "field_of CHR ''m'' mo" "field_of CHR ''d'' da"
      "field_of CHR ''H'' h" "field_of CHR ''M'' mi" "field_of CHR ''S'' se"
      "lit_match CHR ''T'' sep"
    and g: "g = [(CHR ''Y'', y), (CHR ''m'', mo), (CHR ''d'', da), (CHR ''H'', h), (CHR ''M'', mi),
            (CHR ''S'', se)]"
    unfolding base_members by blast
  have "fields_datetime y mo da h mi se = Inr d" using assms(2) g by (simp add: groups_datetime)
  then show ?thesis using s f by blast
qed

lemma ts_parse_shape:
  assumes "ts_parse (JStr s) = Some d"
  shows "accepted s [] d \<or> accepted s ''Z'' d \<or> accepted s ''z'' d \<or> accepted s ''+00:00'' d"
proof -
  from assms consider
      "strptime (JStr s) ''%Y-%m-%dT%H:%M:%S+00:00'' = Inr d"
    | "strptime (JStr s) ''%Y-%m-%dT%H:%M:%SZ'' = Inr d"
    | "strptime (JStr s) ''%Y-%m-%dT%H:%M:%S'' = Inr d"
    by (auto simp: ts_parse_def ts_formats_def split: sum.splits)
  then show ?thesis
  proof cases
    case 1
    from strptime_member [OF compile_formats(3) formats_known(3) 1] obtain g where
      g: "(g, []) \<in> set (match_items (datetime_items @ map Lit ''+00:00'') s)"
      and d: "datetime_of_groups g = Inr d" by auto
    from g obtain u where u: "(g, u) \<in> set (match_items datetime_items s)"
      and lits: "list_all2 lit_match ''+00:00'' u"
      unfolding suffix_members by auto
    from lits have "u = ''+00:00''"
      by (auto simp: list_all2_Cons1 lit_match_def uppercase_def lowercase_def)
    then show ?thesis using parsed_shape [OF u d] by simp
  next
    case 2
    from strptime_member [OF compile_formats(2) formats_known(2) 2] obtain g where
      g: "(g, []) \<in> set (match_items (datetime_items @ map Lit ''Z'') s)"
      and d: "datetime_of_groups g = Inr d" by auto
    from g obtain u where u: "(g, u) \<in> set (match_items datetime_items s)"
      and lits: "list_all2 lit_match ''Z'' u"
      unfolding suffix_members by auto
    from lits have "u = ''Z'' \<or> u = ''z''"
      by (auto simp: list_all2_Cons1 lit_match_Z)
    then show ?thesis using parsed_shape [OF u d] by auto
  next
    case 3
    from strptime_member [OF compile_formats(1) formats_known(1) 3] obtain g where
      g: "(g, []) \<in> set (match_items datetime_items s)"
      and d: "datetime_of_groups g = Inr d" by auto
    show ?thesis using parsed_shape [OF g d] by simp
  qed
qed

lemma shape_ts_parse:
  assumes "accepted s suffix d" and "suffix \<in> set ['''', ''Z'', ''z'', ''+00:00'']"
  shows "ts_parse (JStr s) = Some d"
proof -
  from assms obtain y mo da sep h mi se where
    s: "s = y @ CHR ''-'' # mo @ CHR ''-'' # da @ sep # h @ CHR '':'' # mi @ CHR '':'' # se @ suffix"
    and f: "field_of CHR ''Y'' y" "field_of CHR ''m'' mo" "field_of CHR ''d'' da"
      "field_of CHR ''H'' h" "field_of CHR ''M'' mi" "field_of CHR ''S'' se"
    and T: "lit_match CHR ''T'' sep"
    and d: "fields_datetime y mo da h mi se = Inr d"
    by blast
  let ?b = "y @ CHR ''-'' # mo @ CHR ''-'' # da @ sep # h @ CHR '':'' # mi @ CHR '':'' # se"
  have base: "strptime (JStr ?b) ''%Y-%m-%dT%H:%M:%S'' = Inr d"
    using strptime_base_fields [OF f T] d by simp
  have sb: "s = ?b @ suffix" using s by simp
  from assms(2) consider "suffix = ''''" | "suffix = ''Z''" | "suffix = ''z''" | "suffix = ''+00:00''"
    by auto
  then show ?thesis
  proof cases
    case 1
    then show ?thesis using ts_parse_variants(1) [OF base] sb by simp
  next
    case 2
    then show ?thesis using ts_parse_variants(2) [OF base] sb by simp
  next
    case 3
    then show ?thesis using ts_parse_lower_z [OF base] sb by simp
  next
    case 4
    then show ?thesis using ts_parse_variants(3) [OF base] sb by simp
  qed
qed

lemma ts_parse_not_string: "\<forall>s. ts \<noteq> JStr s \<Longrightarrow> ts_parse ts = None"
  by (cases ts) (simp_all add: ts_parse_def ts_formats_def strptime_def)

text \<open>
  C9 (as amended): for every input value \<open>ts_parse\<close> tries \<^verbatim>\<open>strptime\<close> with
  \<^verbatim>\<open>%Y-%m-%dT%H:%M:%S+00:00\<close>, then \<^verbatim>\<open>%Y-%m-%dT%H:%M:%SZ\<close>, then \<^verbatim>\<open>%Y-%m-%dT%H:%M:%S\<close>, and
  returns the first successful parse; it returns \<^verbatim>\<open>None\<close> exactly when \<^verbatim>\<open>strptime\<close> raises
  for all three, in particular for every value that is not a string, and it never
  raises. A string parses to \<open>d\<close> exactly when it is a year field, \<^verbatim>\<open>-\<close>, a month field,
  \<^verbatim>\<open>-\<close>, a day field, \<^verbatim>\<open>T\<close> or \<^verbatim>\<open>t\<close>, an hour field, \<^verbatim>\<open>:\<close>, a minute field, \<^verbatim>\<open>:\<close>, a second
  field, and then nothing, \<^verbatim>\<open>Z\<close>, \<^verbatim>\<open>z\<close> or \<^verbatim>\<open>+00:00\<close>, where each field is a text that the
  expression of its directive matches and the six numbers form the valid date-time
  \<open>d\<close>; every other string is absent. This is wider than the three layouts as written.
\<close>

theorem ts_parse_accepts:
  "ts_parse ts =
     (case strptime ts ''%Y-%m-%dT%H:%M:%S+00:00'' of
        Inr dt \<Rightarrow> Some dt
      | Inl e1 \<Rightarrow>
          (case strptime ts ''%Y-%m-%dT%H:%M:%SZ'' of
             Inr dt \<Rightarrow> Some dt
           | Inl e2 \<Rightarrow>
               (case strptime ts ''%Y-%m-%dT%H:%M:%S'' of
                  Inr dt \<Rightarrow> Some dt
                | Inl e3 \<Rightarrow> None)))
   \<and> (ts_parse ts = None) =
       (isl (strptime ts ''%Y-%m-%dT%H:%M:%S+00:00'') \<and> isl (strptime ts ''%Y-%m-%dT%H:%M:%SZ'')
        \<and> isl (strptime ts ''%Y-%m-%dT%H:%M:%S''))
   \<and> ((\<forall>s. ts \<noteq> JStr s) \<longrightarrow> ts_parse ts = None)
   \<and> (ts_parse (JStr s) = Some d) =
       (\<exists>y mo da sep h mi se suffix.
          s = y @ CHR ''-'' # mo @ CHR ''-'' # da @ sep # h @ CHR '':'' # mi @ CHR '':'' # se @ suffix
          \<and> field_of CHR ''Y'' y \<and> field_of CHR ''m'' mo \<and> field_of CHR ''d'' da
          \<and> field_of CHR ''H'' h \<and> field_of CHR ''M'' mi \<and> field_of CHR ''S'' se
          \<and> lit_match CHR ''T'' sep \<and> suffix \<in> set ['''', ''Z'', ''z'', ''+00:00'']
          \<and> fields_datetime y mo da h mi se = Inr d)"
proof (intro conjI)
  show "ts_parse ts =
     (case strptime ts ''%Y-%m-%dT%H:%M:%S+00:00'' of
        Inr dt \<Rightarrow> Some dt
      | Inl e1 \<Rightarrow>
          (case strptime ts ''%Y-%m-%dT%H:%M:%SZ'' of
             Inr dt \<Rightarrow> Some dt
           | Inl e2 \<Rightarrow>
               (case strptime ts ''%Y-%m-%dT%H:%M:%S'' of
                  Inr dt \<Rightarrow> Some dt
                | Inl e3 \<Rightarrow> None)))"
    by (simp add: ts_parse_def ts_formats_def split: sum.splits)
next
  show "(ts_parse ts = None) =
       (isl (strptime ts ''%Y-%m-%dT%H:%M:%S+00:00'') \<and> isl (strptime ts ''%Y-%m-%dT%H:%M:%SZ'')
        \<and> isl (strptime ts ''%Y-%m-%dT%H:%M:%S''))"
    by (simp add: ts_parse_def ts_formats_def split: sum.splits)
next
  show "(\<forall>s. ts \<noteq> JStr s) \<longrightarrow> ts_parse ts = None"
    using ts_parse_not_string by blast
next
  show "(ts_parse (JStr s) = Some d) =
       (\<exists>y mo da sep h mi se suffix.
          s = y @ CHR ''-'' # mo @ CHR ''-'' # da @ sep # h @ CHR '':'' # mi @ CHR '':'' # se @ suffix
          \<and> field_of CHR ''Y'' y \<and> field_of CHR ''m'' mo \<and> field_of CHR ''d'' da
          \<and> field_of CHR ''H'' h \<and> field_of CHR ''M'' mi \<and> field_of CHR ''S'' se
          \<and> lit_match CHR ''T'' sep \<and> suffix \<in> set ['''', ''Z'', ''z'', ''+00:00'']
          \<and> fields_datetime y mo da h mi se = Inr d)"
  proof
    assume "ts_parse (JStr s) = Some d"
    from ts_parse_shape [OF this]
    have "\<exists>suffix. suffix \<in> set ['''', ''Z'', ''z'', ''+00:00''] \<and> accepted s suffix d"
      apply (elim disjE)
         apply (rule exI [of _ "[]"], rule conjI, simp, assumption)
        apply (rule exI [of _ "''Z''"], rule conjI, simp, assumption)
       apply (rule exI [of _ "''z''"], rule conjI, simp, assumption)
      apply (rule exI [of _ "''+00:00''"], rule conjI, simp, assumption)
      done
    then obtain suffix where
      sm: "suffix \<in> set ['''', ''Z'', ''z'', ''+00:00''] \<and> accepted s suffix d" ..
    note m = sm [THEN conjunct1] and a = sm [THEN conjunct2]
    from a obtain y mo da sep h mi se where
      "s = y @ CHR ''-'' # mo @ CHR ''-'' # da @ sep # h @ CHR '':'' # mi @ CHR '':'' # se @ suffix
          \<and> field_of CHR ''Y'' y \<and> field_of CHR ''m'' mo \<and> field_of CHR ''d'' da
          \<and> field_of CHR ''H'' h \<and> field_of CHR ''M'' mi \<and> field_of CHR ''S'' se
          \<and> lit_match CHR ''T'' sep \<and> suffix \<in> set ['''', ''Z'', ''z'', ''+00:00'']
          \<and> fields_datetime y mo da h mi se = Inr d"
      using m by blast
    then show "\<exists>y mo da sep h mi se suffix.
          s = y @ CHR ''-'' # mo @ CHR ''-'' # da @ sep # h @ CHR '':'' # mi @ CHR '':'' # se @ suffix
          \<and> field_of CHR ''Y'' y \<and> field_of CHR ''m'' mo \<and> field_of CHR ''d'' da
          \<and> field_of CHR ''H'' h \<and> field_of CHR ''M'' mi \<and> field_of CHR ''S'' se
          \<and> lit_match CHR ''T'' sep \<and> suffix \<in> set ['''', ''Z'', ''z'', ''+00:00'']
          \<and> fields_datetime y mo da h mi se = Inr d"
      by (intro exI)
  next
    assume "\<exists>y mo da sep h mi se suffix.
          s = y @ CHR ''-'' # mo @ CHR ''-'' # da @ sep # h @ CHR '':'' # mi @ CHR '':'' # se @ suffix
          \<and> field_of CHR ''Y'' y \<and> field_of CHR ''m'' mo \<and> field_of CHR ''d'' da
          \<and> field_of CHR ''H'' h \<and> field_of CHR ''M'' mi \<and> field_of CHR ''S'' se
          \<and> lit_match CHR ''T'' sep \<and> suffix \<in> set ['''', ''Z'', ''z'', ''+00:00'']
          \<and> fields_datetime y mo da h mi se = Inr d"
    then obtain y mo da sep h mi se suffix where
      *: "s = y @ CHR ''-'' # mo @ CHR ''-'' # da @ sep # h @ CHR '':'' # mi @ CHR '':'' # se @ suffix
          \<and> field_of CHR ''Y'' y \<and> field_of CHR ''m'' mo \<and> field_of CHR ''d'' da
          \<and> field_of CHR ''H'' h \<and> field_of CHR ''M'' mi \<and> field_of CHR ''S'' se
          \<and> lit_match CHR ''T'' sep \<and> fields_datetime y mo da h mi se = Inr d"
      and m: "suffix \<in> set ['''', ''Z'', ''z'', ''+00:00'']"
      by blast
    from * have "accepted s suffix d" by (intro exI)
    from shape_ts_parse [OF this m] show "ts_parse (JStr s) = Some d" .
  qed
qed

theorem ts_parse_lenient_counterexample:
  "\<not> matches_spec_layout ''2024-1-1T0:0:0''
   \<and> ts_parse (JStr ''2024-1-1T0:0:0'') =
       Some \<lparr>year = 2024, month = 1, day = 1, hour = 0, minute = 0, second = 0\<rparr>
   \<and> \<not> matches_spec_layout ''2024-01-01t00:00:00z''
   \<and> ts_parse (JStr ''2024-01-01t00:00:00z'') =
       Some \<lparr>year = 2024, month = 1, day = 1, hour = 0, minute = 0, second = 0\<rparr>
   \<and> \<not> matches_spec_layout ''2024-01- 1T00:00:00''
   \<and> ts_parse (JStr ''2024-01- 1T00:00:00'') =
       Some \<lparr>year = 2024, month = 1, day = 1, hour = 0, minute = 0, second = 0\<rparr>"
  by code_simp

lemma lenient_fields:
  "field_of CHR ''Y'' ''2024''" "field_of CHR ''m'' ''1''" "field_of CHR ''d'' ''1''"
  "field_of CHR ''H'' ''0''" "field_of CHR ''M'' ''0''" "field_of CHR ''S'' ''0''"
  "lit_match CHR ''T'' CHR ''t''"
  "fields_datetime ''2024'' ''1'' ''1'' ''0'' ''0'' ''0'' = Inr jan1"
  by code_simp+

theorem ts_parse_accepts_witness:
  "(\<forall>s. JNull \<noteq> JStr s)
   \<and> ts_parse JNull = None
   \<and> ts_parse (JStr ''2024-1-1t0:0:0z'') = Some jan1"
proof -
  note inst = ts_parse_accepts [where ts = JNull and s = "''2024-1-1t0:0:0z''" and d = jan1]
  have "\<exists>y mo da sep h mi se suffix.
          ''2024-1-1t0:0:0z'' =
            y @ CHR ''-'' # mo @ CHR ''-'' # da @ sep # h @ CHR '':'' # mi @ CHR '':'' # se @ suffix
          \<and> field_of CHR ''Y'' y \<and> field_of CHR ''m'' mo \<and> field_of CHR ''d'' da
          \<and> field_of CHR ''H'' h \<and> field_of CHR ''M'' mi \<and> field_of CHR ''S'' se
          \<and> lit_match CHR ''T'' sep \<and> suffix \<in> set ['''', ''Z'', ''z'', ''+00:00'']
          \<and> fields_datetime y mo da h mi se = Inr jan1"
    apply (rule exI [of _ "''2024''"])
    apply (rule exI [of _ "''1''"])
    apply (rule exI [of _ "''1''"])
    apply (rule exI [of _ "CHR ''t''"])
    apply (rule exI [of _ "''0''"])
    apply (rule exI [of _ "''0''"])
    apply (rule exI [of _ "''0''"])
    apply (rule exI [of _ "''z''"])
    apply (simp add: lenient_fields)
    done
  then have parse: "ts_parse (JStr ''2024-1-1t0:0:0z'') = Some jan1"
    by (rule inst [THEN conjunct2, THEN conjunct2, THEN conjunct2, THEN iffD2])
  have not_string: "\<forall>s. JNull \<noteq> JStr s" by simp
  have none: "ts_parse JNull = None"
    by (rule inst [THEN conjunct2, THEN conjunct2, THEN conjunct1, THEN mp, OF not_string])
  show ?thesis using parse none not_string by simp
qed

end
